theory Spec2Isabelle
  imports Complex_Main "HOL-Library.Multiset"
begin

section \<open>Data model of \<open>mri_tools/viz/fmriplots_modAT.py\<close>\<close>

text \<open>
  The arrays of the source are flattened in C order. A 4D volume of shape
  \<open>(x, y, z, t)\<close> is the list of its \<open>x * y * z\<close> voxels, each a time series
  of \<open>ntsteps\<close> samples; a 3D segmentation is the list of its labels in the same
  voxel order. Samples are exact rationals: rounding of the floating-point
  arithmetic and the \<open>'%.02f'\<close> formatting of tick labels are not part of the
  model. A 2D array keeps its column count beside its rows, as \<open>shape\<close> does
  when there are no rows.
\<close>

datatype py_error = IndexError | ValueError | NameError | NonFinite

record volume =
  ntsteps :: nat
  voxels :: "rat list list"

record matrix =
  ncols :: nat
  mrows :: "rat list list"

text \<open>What \<open>fmricarpetplot\<close> hands to the plotting library.\<close>

record carpet_axes =
  seg_image :: "int list"
  seg_vmax :: int
  carpet_image :: matrix
  carpet_cmap :: string
  carpet_vmin :: rat
  carpet_vmax :: rat
  xticks :: "nat list"
  xlabel :: string
  xticklabels :: "rat list"

section \<open>Array-library operations used by the source\<close>

text \<open>\<open>a[mask > 0]\<close>: the entries of \<open>a\<close> at the positions where the mask is positive.\<close>

definition mask_select :: "'a list \<Rightarrow> int list \<Rightarrow> 'a list" where
  "mask_select xs msk = map fst (filter (\<lambda>p. 0 < snd p) (zip xs msk))"

text \<open>\<open>np.unique\<close>: the distinct values, ascending.\<close>

definition unique :: "int list \<Rightarrow> int list" where
  "unique xs = sort (remdups xs)"

text \<open>\<open>xs[::k]\<close> for a step \<open>k \<ge> 1\<close>: the entries at positions \<open>0, k, 2k, ...\<close>.\<close>

definition step_slice :: "'a list \<Rightarrow> nat \<Rightarrow> 'a list" where
  "step_slice xs k = map (\<lambda>j. xs ! (j * k)) [0..<(length xs + k - 1) div k]"

text \<open>
  \<open>np.argsort\<close> is called with its default \<open>kind\<close>, the library's quicksort, which
  the library does not promise to be stable. It is a parameter of the model; what
  the library promises is that the result lists every index once and reads the keys
  in ascending order.
\<close>

definition argsort_ok :: "(int list \<Rightarrow> nat list) \<Rightarrow> bool" where
  "argsort_ok argsort \<longleftrightarrow>
     (\<forall>keys. mset (argsort keys) = mset [0..<length keys] \<and>
             sorted (map (\<lambda>i. keys ! i) (argsort keys)))"

text \<open>
  Two sorts that keep this promise. The first keeps ties in index order. The
  second leaves ties in the order in which the partition step of a quicksort
  leaves more than 17 equal keys: the first row and the last two stay, the rows
  between them are reversed. Up to 17 rows it is the first sort.
\<close>

definition stable_argsort :: "int list \<Rightarrow> nat list" where
  "stable_argsort keys = sort_key (\<lambda>i. keys ! i) [0..<length keys]"

definition tie_order :: "nat \<Rightarrow> nat list" where
  "tie_order n = (if n \<le> 17 then [0..<n] else 0 # rev [1..<n - 2] @ [n - 2, n - 1])"

definition partition_argsort :: "int list \<Rightarrow> nat list" where
  "partition_argsort keys = sort_key (\<lambda>i. keys ! i) (tie_order (length keys))"

text \<open>
  \<open>nilearn.signal.clean\<close> is the external detrending function, a parameter of the
  model, applied to the voxel-by-time matrix with the sampling interval. Its
  contract in the specification is that it returns data of the same shape.
\<close>

definition clean_ok :: "(rat \<Rightarrow> matrix \<Rightarrow> matrix) \<Rightarrow> bool" where
  "clean_ok clean \<longleftrightarrow>
     (\<forall>t m. ncols (clean t m) = ncols m \<and> length (mrows (clean t m)) = length (mrows m))"

text \<open>A detrending function that keeps this contract, for concrete runs.\<close>

definition id_clean :: "rat \<Rightarrow> matrix \<Rightarrow> matrix" where
  "id_clean t m = m"

text \<open>\<open>m[order, :]\<close>; an index beyond the last row raises.\<close>

definition take_rows :: "matrix \<Rightarrow> nat list \<Rightarrow> py_error + matrix" where
  "take_rows m order =
     (if list_all (\<lambda>i. i < length (mrows m)) order
      then Inr \<lparr>ncols = ncols m, mrows = map (\<lambda>i. mrows m ! i) order\<rparr>
      else Inl IndexError)"

text \<open>\<open>m[:, ::2]\<close>.\<close>

definition decimate :: "matrix \<Rightarrow> matrix" where
  "decimate m = \<lparr>ncols = (ncols m + 1) div 2, mrows = map (\<lambda>r. step_slice r 2) (mrows m)\<rparr>"

section \<open>Carpet-row reordering (\<open>fmricarpetplot\<close>, lines 121 to 141)\<close>

text \<open>\<open>func_data[segmentation > 0].reshape(-1, ntsteps)\<close>.\<close>

definition masked_data :: "volume \<Rightarrow> int list \<Rightarrow> py_error + matrix" where
  "masked_data func_data segmentation =
     (if length segmentation \<noteq> length (voxels func_data) then Inl IndexError
      else if ntsteps func_data = 0 then Inl ValueError
      else Inr \<lparr>ncols = ntsteps func_data,
                mrows = mask_select (voxels func_data) segmentation\<rparr>)"

text \<open>\<open>segmentation[segmentation > 0].reshape(-1)\<close>.\<close>

definition masked_seg :: "int list \<Rightarrow> int list" where
  "masked_seg segmentation = filter (\<lambda>l. 0 < l) segmentation"

definition cort_gm :: "int list \<Rightarrow> int list" where
  "cort_gm labels = filter (\<lambda>l. 100 < l \<and> l < 200) labels"

definition deep_gm :: "int list \<Rightarrow> int list" where
  "deep_gm labels = filter (\<lambda>l. 30 < l \<and> l < 100) labels"

definition cerebellum :: "int list" where
  "cerebellum = [255]"

definition wm_csf :: "int list \<Rightarrow> int list" where
  "wm_csf labels = filter (\<lambda>l. l < 10) labels"

text \<open>The label list after line 134: the four bands, concatenated.\<close>

definition seg_labels :: "int list \<Rightarrow> int list" where
  "seg_labels seg =
     (let labels = unique seg
      in cort_gm labels @ deep_gm labels @ cerebellum @ wm_csf labels)"

text \<open>
  The loop of lines 138 to 140: each label of the list in turn overwrites, in
  \<open>newsegm\<close>, the entries of the voxels carrying it with the running \<open>label_id\<close>.
\<close>

fun relabel :: "int list \<Rightarrow> int list \<Rightarrow> int \<Rightarrow> int list \<Rightarrow> int list" where
  "relabel seg [] label_id newsegm = newsegm"
| "relabel seg (lab # labs) label_id newsegm =
     relabel seg labs (label_id + 1)
       (map2 (\<lambda>s old. if s = lab then label_id else old) seg newsegm)"

definition newsegm :: "int list \<Rightarrow> int list" where
  "newsegm seg = relabel seg (seg_labels seg) 0 (replicate (length seg) 0)"

definition carpet_order :: "(int list \<Rightarrow> nat list) \<Rightarrow> int list \<Rightarrow> nat list" where
  "carpet_order argsort segmentation = argsort (newsegm (masked_seg segmentation))"

section \<open>Rendering (\<open>fmricarpetplot\<close>, lines 162 to 203)\<close>

text \<open>
  \<open>long_cutoff\<close> is assigned on the branch for raw data only; \<open>None\<close> is the
  unassigned local variable.
\<close>

definition long_cutoff_var :: "bool \<Rightarrow> nat option" where
  "long_cutoff_var stat = (if \<not> stat then Some 800 else None)"

text \<open>Lines 167 to 176: the displayed matrix and its colormap.\<close>

definition carpet_data :: "bool \<Rightarrow> matrix \<Rightarrow> matrix \<Rightarrow> nat list \<Rightarrow> py_error + matrix" where
  "carpet_data stat data detrended order =
     (if \<not> stat then
        (if ncols detrended > 800
         then (case take_rows detrended order of
                 Inl e \<Rightarrow> Inl e | Inr m \<Rightarrow> Inr (decimate m))
         else take_rows detrended order)
      else take_rows data order)"

definition cmap_of :: "bool \<Rightarrow> string" where
  "cmap_of stat = (if \<not> stat then ''gray'' else ''Spectral_r'')"

text \<open>Lines 179 and 180.\<close>

definition default_range :: "(rat \<times> rat) option \<Rightarrow> rat \<times> rat" where
  "default_range map_range = (case map_range of None \<Rightarrow> (-2, 2) | Some r \<Rightarrow> r)"

text \<open>Lines 190 and 191: at most about ten frame markers.\<close>

definition tick_interval :: "nat \<Rightarrow> nat" where
  "tick_interval shown_cols = max ((shown_cols + 1) div 10) 1"

definition xticks_of :: "nat \<Rightarrow> nat list" where
  "xticks_of shown_cols = step_slice [0..<shown_cols] (tick_interval shown_cols)"

text \<open>
  Lines 194 to 203: the numbers behind the tick labels. With a sampling interval
  the branch reads \<open>long_cutoff\<close>, whatever \<open>stat\<close> is.
\<close>

definition tick_labels ::
  "bool \<Rightarrow> rat \<Rightarrow> nat option \<Rightarrow> nat \<Rightarrow> nat list \<Rightarrow> py_error + rat list" where
  "tick_labels notr tr long_cutoff detrended_cols ticks =
     (if notr then Inr (map of_nat ticks)
      else (let labels = map (\<lambda>x. tr * of_nat x) ticks
            in case long_cutoff of
                 None \<Rightarrow> Inl NameError
               | Some c \<Rightarrow>
                   Inr (if detrended_cols > c then map (\<lambda>t. t * 2) labels else labels)))"

definition fmricarpetplot ::
  "(rat \<Rightarrow> matrix \<Rightarrow> matrix) \<Rightarrow> (int list \<Rightarrow> nat list) \<Rightarrow>
   volume \<Rightarrow> int list \<Rightarrow> bool \<Rightarrow> (rat \<times> rat) option \<Rightarrow> rat option \<Rightarrow>
   py_error + carpet_axes" where
  "fmricarpetplot clean argsort func_data segmentation stat map_range tr_arg =
     (let notr = (tr_arg = None);
          tr = (case tr_arg of None \<Rightarrow> 1 | Some t \<Rightarrow> t)
      in case masked_data func_data segmentation of
           Inl e \<Rightarrow> Inl e
         | Inr data \<Rightarrow>
            (let detrended = clean tr data;
                 seg = masked_seg segmentation;
                 segm = newsegm seg;
                 order = argsort segm
             in if \<not> list_all (\<lambda>i. i < length segm) order then Inl IndexError
                else
                  (case carpet_data stat data detrended order of
                     Inl e \<Rightarrow> Inl e
                   | Inr shown \<Rightarrow>
                      (let rng = default_range map_range;
                           ticks = xticks_of (ncols shown)
                       in case tick_labels notr tr (long_cutoff_var stat)
                                 (ncols detrended) ticks of
                            Inl e \<Rightarrow> Inl e
                          | Inr labels \<Rightarrow>
                              Inr \<lparr>seg_image = map (\<lambda>i. segm ! i) order,
                                   seg_vmax = int (length (seg_labels seg)) - 1,
                                   carpet_image = shown,
                                   carpet_cmap = cmap_of stat,
                                   carpet_vmin = fst rng,
                                   carpet_vmax = snd rng,
                                   xticks = ticks,
                                   xlabel = (if notr then ''Frame #'' else ''time (s)''),
                                   xticklabels = labels\<rparr>))))"

section \<open>Confound plot (\<open>confoundplot\<close>) and \<open>fMRIPlot.plot\<close>\<close>

text \<open>
  A Python list is an object passed by reference: the \<open>cutoff\<close> entry of a
  descriptor and the \<open>cutoff\<close> parameter of \<open>confoundplot\<close> are the same list.
  The heap gives the content of every list object; a descriptor holds the
  reference of its cutoff list, or \<open>None\<close>. Of a descriptor the model keeps the
  entries that decide the numbers drawn (\<open>normalize\<close>, \<open>cutoff\<close>, \<open>ylims\<close>); names,
  units, colours and the placement of annotations are left to the plotting library.
\<close>

type_synonym ref = nat

type_synonym heap = "ref \<Rightarrow> rat list"

record confound_kwargs =
  kw_normalize :: bool
  kw_cutoff :: "ref option"
  kw_ylims :: "(rat option \<times> rat option) option"

text \<open>What \<open>confoundplot\<close> draws: the y limits and the horizontal lines, the mean first.\<close>

record confound_axes =
  ax_ylim :: "rat \<times> rat"
  ax_lines :: "rat list"

definition mean :: "rat list \<Rightarrow> rat" where
  "mean xs = sum_list xs / of_nat (length xs)"

text \<open>
  Lines 363 to 373 and 420 to 445. Dividing by a zero sampling interval gives
  infinities in floating point, which the rationals do not have: \<open>NonFinite\<close>
  marks that case as outside the model. The minimum of an empty series raises.
\<close>

definition confoundplot ::
  "heap \<Rightarrow> rat list \<Rightarrow> rat option \<Rightarrow> confound_kwargs \<Rightarrow>
   py_error + (heap \<times> confound_axes)" where
  "confoundplot h tseries_arg tr_arg kw =
     (let tr = (case tr_arg of None \<Rightarrow> 1 | Some t \<Rightarrow> t)
      in if kw_normalize kw \<and> tr = 0 then Inl NonFinite
         else
          (let tseries = (if kw_normalize kw then map (\<lambda>x. x / tr) tseries_arg
                          else tseries_arg)
           in if tseries = [] then Inl ValueError
              else
               (let lo = 95 / 100 * Min (set tseries);
                    hi = 11 / 10 * Max (set tseries);
                    def_ylims =
                      (case kw_ylims kw of
                         None \<Rightarrow> (lo, hi)
                       | Some (y0, y1) \<Rightarrow>
                           ((case y0 of None \<Rightarrow> lo | Some y \<Rightarrow> y),
                            (case y1 of None \<Rightarrow> hi | Some y \<Rightarrow> y)));
                    m = mean tseries
                in case kw_cutoff kw of
                     None \<Rightarrow> Inr (h, \<lparr>ax_ylim = def_ylims, ax_lines = [m]\<rparr>)
                   | Some r \<Rightarrow>
                       (let h' = h(r := m # h r)
                        in Inr (h', \<lparr>ax_ylim = def_ylims, ax_lines = h' r\<rparr>)))))"

text \<open>
  The object built by \<open>fMRIPlot.__init__\<close> and the loop of \<open>plot\<close> over its
  confounds (lines 95 to 99), followed by the carpet plot (line 101). The spike
  plots are drawn by the plotting library alone.
\<close>

record fMRIPlot =
  self_func_data :: volume
  self_seg_data :: "int list"
  self_stat_map :: bool
  self_map_range :: "(rat \<times> rat) option"
  self_tr :: "rat option"
  self_confounds :: "(rat list \<times> confound_kwargs) list"

fun plot_confounds ::
  "heap \<Rightarrow> rat option \<Rightarrow> (rat list \<times> confound_kwargs) list \<Rightarrow>
   py_error + (heap \<times> confound_axes list)" where
  "plot_confounds h tr [] = Inr (h, [])"
| "plot_confounds h tr ((tseries, kwargs) # rest) =
     (case confoundplot h tseries tr kwargs of
        Inl e \<Rightarrow> Inl e
      | Inr (h', ax) \<Rightarrow>
          (case plot_confounds h' tr rest of
             Inl e \<Rightarrow> Inl e
           | Inr (h'', axs) \<Rightarrow> Inr (h'', ax # axs)))"

definition plot ::
  "(rat \<Rightarrow> matrix \<Rightarrow> matrix) \<Rightarrow> (int list \<Rightarrow> nat list) \<Rightarrow> heap \<Rightarrow> fMRIPlot \<Rightarrow>
   py_error + (heap \<times> confound_axes list \<times> carpet_axes)" where
  "plot clean argsort h self =
     (case plot_confounds h (self_tr self) (self_confounds self) of
        Inl e \<Rightarrow> Inl e
      | Inr (h', axs) \<Rightarrow>
          (case fmricarpetplot clean argsort (self_func_data self) (self_seg_data self)
                  (self_stat_map self) (self_map_range self) (self_tr self) of
             Inl e \<Rightarrow> Inl e
           | Inr carpet \<Rightarrow> Inr (h', axs, carpet)))"

section \<open>Notions used to state the properties\<close>

text \<open>
  The band a positive label falls in, read off the comparisons of lines 130 to
  133 (the fourth applies to labels that passed the mask, so to \<open>1, ..., 9\<close>).
\<close>

datatype band = CorticalGM | DeepGM | Cerebellum | WM_CSF

definition band_of :: "int \<Rightarrow> band option" where
  "band_of l =
     (if 100 < l \<and> l < 200 then Some CorticalGM
      else if 30 < l \<and> l < 100 then Some DeepGM
      else if l = 255 then Some Cerebellum
      else if l < 10 then Some WM_CSF
      else None)"

fun band_pos :: "band option \<Rightarrow> nat" where
  "band_pos (Some CorticalGM) = 0"
| "band_pos (Some DeepGM) = 1"
| "band_pos (Some Cerebellum) = 2"
| "band_pos (Some WM_CSF) = 3"
| "band_pos None = 4"

text \<open>The bands as the specification words them, for comparison.\<close>

definition spec_band_of :: "int \<Rightarrow> band option" where
  "spec_band_of l =
     (if 100 \<le> l \<and> l \<le> 199 then Some CorticalGM
      else if 30 \<le> l \<and> l \<le> 99 then Some DeepGM
      else if l = 255 then Some Cerebellum
      else if 0 < l \<and> l < 10 then Some WM_CSF
      else None)"

text \<open>
  The order of two labels by band first and, inside a band, by label value.
\<close>

definition band_label_le :: "int \<Rightarrow> int \<Rightarrow> bool" where
  "band_label_le l1 l2 \<longleftrightarrow>
     band_pos (band_of l1) < band_pos (band_of l2) \<or>
     (band_pos (band_of l1) = band_pos (band_of l2) \<and> l1 \<le> l2)"

text \<open>What the loop does to the entry of a single voxel carrying label \<open>s\<close>.\<close>

fun relabel1 :: "int \<Rightarrow> int list \<Rightarrow> int \<Rightarrow> int \<Rightarrow> int" where
  "relabel1 s [] label_id old = old"
| "relabel1 s (lab # labs) label_id old =
     relabel1 s labs (label_id + 1) (if s = lab then label_id else old)"

text \<open>
  A permutation is stable for its keys when no two rows with equal keys have
  changed their relative order.
\<close>

definition swapped_tie :: "int list \<Rightarrow> nat list \<Rightarrow> nat \<Rightarrow> nat \<Rightarrow> bool" where
  "swapped_tie keys order a b \<longleftrightarrow>
     a < b \<and> keys ! (order ! a) = keys ! (order ! b) \<and> order ! b \<le> order ! a"

definition stable_order :: "int list \<Rightarrow> nat list \<Rightarrow> bool" where
  "stable_order keys order \<longleftrightarrow>
     \<not> list_ex (\<lambda>a. list_ex (swapped_tie keys order a) [0..<length order])
          [0..<length order]"

text \<open>The rows of the volume whose voxel carries label \<open>l\<close>.\<close>

definition rows_with_label :: "volume \<Rightarrow> int list \<Rightarrow> int \<Rightarrow> rat list list" where
  "rows_with_label func_data segmentation l =
     map fst (filter (\<lambda>p. snd p = l) (zip (voxels func_data) segmentation))"

text \<open>The label that holds rank \<open>k\<close> when the labels are 150, 50, 255 and 5.\<close>

definition label_at :: "int \<Rightarrow> int" where
  "label_at k = (if k = 0 then 150 else if k = 1 then 50 else if k = 2 then 255 else 5)"

text \<open>
  A 4 x 4 x 4 x 50 volume whose voxel \<open>i\<close> has the constant series \<open>i\<close>, and a
  segmentation with one voxel for each of the labels 5, 255, 150 and 50.
\<close>

definition ex8_seg :: "int list" where
  "ex8_seg = replicate 10 0 @ [5] @ replicate 20 0 @ [255, 150] @ replicate 30 0 @ [50]"

definition ex8_vol :: volume where
  "ex8_vol = \<lparr>ntsteps = 50, voxels = map (\<lambda>i. replicate 50 (of_nat i)) [0..<64]\<rparr>"

text \<open>The rank the loop gives to the voxels carrying label \<open>l\<close>.\<close>

definition rank_of :: "int list \<Rightarrow> int \<Rightarrow> int" where
  "rank_of seg l = relabel1 l (seg_labels seg) 0 0"

section \<open>The relabelling loop\<close>

lemma relabel_length: "length ns = length seg \<Longrightarrow> length (relabel seg labs k ns) = length seg"
  by (induction labs arbitrary: k ns) simp_all

lemma relabel_map2:
  "length ns = length seg \<Longrightarrow>
   relabel seg labs k ns = map2 (\<lambda>s old. relabel1 s labs k old) seg ns"
proof (induction labs arbitrary: k ns)
  case Nil
  then show ?case by (intro nth_equalityI) simp_all
next
  case (Cons lab labs)
  let ?ns' = "map2 (\<lambda>s old. if s = lab then k else old) seg ns"
  have len: "length ?ns' = length seg" using Cons.prems by simp
  have "relabel seg (lab # labs) k ns = relabel seg labs (k + 1) ?ns'" by simp
  also have "\<dots> = map2 (\<lambda>s old. relabel1 s labs (k + 1) old) seg ?ns'"
    using Cons.IH [OF len] .
  also have "\<dots> = map2 (\<lambda>s old. relabel1 s (lab # labs) k old) seg ns"
    using Cons.prems by (intro nth_equalityI) simp_all
  finally show ?case .
qed

lemma relabel1_notin: "s \<notin> set labs \<Longrightarrow> relabel1 s labs k old = old"
  by (induction labs arbitrary: k old) simp_all

lemma relabel1_append:
  "relabel1 s (xs @ ys) k old = relabel1 s ys (k + int (length xs)) (relabel1 s xs k old)"
  by (induction xs arbitrary: k old) (simp_all add: algebra_simps)

lemma relabel1_range:
  "s \<in> set labs \<Longrightarrow>
   k \<le> relabel1 s labs k old \<and> relabel1 s labs k old < k + int (length labs)"
proof (induction labs arbitrary: k old)
  case Nil
  then show ?case by simp
next
  case (Cons lab labs)
  show ?case
  proof (cases "s \<in> set labs")
    case True
    then show ?thesis
      using Cons.IH [of "k + 1" "if s = lab then k else old"] by simp
  next
    case False
    with Cons.prems have "s = lab" by simp
    with False show ?thesis by (simp add: relabel1_notin)
  qed
qed

lemma newsegm_length: "length (newsegm seg) = length seg"
  by (simp add: newsegm_def relabel_length)

lemma newsegm_nth:
  "i < length seg \<Longrightarrow> newsegm seg ! i = relabel1 (seg ! i) (seg_labels seg) 0 0"
  by (simp add: newsegm_def relabel_map2)

lemma set_unique: "set (unique xs) = set xs"
  by (simp add: unique_def)


lemma rank_cort:
  assumes "l \<in> set seg" "band_of l = Some CorticalGM"
  shows "0 \<le> rank_of seg l \<and> rank_of seg l < int (length (cort_gm (unique seg)))"
proof -
  have in_c: "l \<in> set (cort_gm (unique seg))"
    using assms by (auto simp: cort_gm_def set_unique band_of_def split: if_splits)
  have out: "l \<notin> set (deep_gm (unique seg) @ cerebellum @ wm_csf (unique seg))"
    using assms(2) by (auto simp: deep_gm_def cerebellum_def wm_csf_def band_of_def split: if_splits)
  have "rank_of seg l = relabel1 l (cort_gm (unique seg)) 0 0"
    unfolding rank_of_def seg_labels_def Let_def
    by (subst relabel1_append) (simp only: relabel1_notin [OF out])
  then show ?thesis using relabel1_range [OF in_c, of 0 0] by simp
qed

lemma rank_deep:
  assumes "l \<in> set seg" "band_of l = Some DeepGM"
  shows "int (length (cort_gm (unique seg))) \<le> rank_of seg l \<and>
         rank_of seg l < int (length (cort_gm (unique seg))) + int (length (deep_gm (unique seg)))"
proof -
  have in_d: "l \<in> set (deep_gm (unique seg))"
    using assms by (auto simp: deep_gm_def set_unique band_of_def split: if_splits)
  have out1: "l \<notin> set (cort_gm (unique seg))"
    using assms(2) by (auto simp: cort_gm_def band_of_def split: if_splits)
  have out2: "l \<notin> set cerebellum" "l \<notin> set (wm_csf (unique seg))"
    using assms(2) by (auto simp: cerebellum_def wm_csf_def band_of_def split: if_splits)
  have "rank_of seg l =
        relabel1 l (deep_gm (unique seg)) (int (length (cort_gm (unique seg)))) 0"
    unfolding rank_of_def seg_labels_def Let_def
    by (simp only: relabel1_append relabel1_notin [OF out1] relabel1_notin [OF out2(1)]
        relabel1_notin [OF out2(2)] add_0)
  then show ?thesis using relabel1_range [OF in_d] by simp
qed

lemma rank_cereb:
  assumes "band_of l = Some Cerebellum"
  shows "rank_of seg l =
         int (length (cort_gm (unique seg))) + int (length (deep_gm (unique seg)))"
proof -
  have l: "l = 255" using assms by (auto simp: band_of_def split: if_splits)
  have out1: "l \<notin> set (cort_gm (unique seg))" "l \<notin> set (deep_gm (unique seg))"
    "l \<notin> set (wm_csf (unique seg))"
    using l by (auto simp: cort_gm_def deep_gm_def wm_csf_def)
  show ?thesis
    unfolding rank_of_def seg_labels_def Let_def
    by (simp only: relabel1_append relabel1_notin [OF out1(1)] relabel1_notin [OF out1(2)]
        relabel1_notin [OF out1(3)] add_0) (simp add: cerebellum_def l)
qed

lemma rank_wm:
  assumes "l \<in> set seg" "band_of l = Some WM_CSF"
  shows "int (length (cort_gm (unique seg))) + int (length (deep_gm (unique seg))) + 1
           \<le> rank_of seg l"
proof -
  have in_w: "l \<in> set (wm_csf (unique seg))"
    using assms by (auto simp: wm_csf_def set_unique band_of_def split: if_splits)
  have out1: "l \<notin> set (cort_gm (unique seg))" "l \<notin> set (deep_gm (unique seg))"
    "l \<notin> set cerebellum"
    using assms(2) by (auto simp: cort_gm_def deep_gm_def cerebellum_def band_of_def split: if_splits)
  have "rank_of seg l =
        relabel1 l (wm_csf (unique seg))
          (int (length (cort_gm (unique seg))) + int (length (deep_gm (unique seg)))
             + int (length cerebellum)) 0"
    unfolding rank_of_def seg_labels_def Let_def
    by (simp only: relabel1_append relabel1_notin [OF out1(1)] relabel1_notin [OF out1(2)]
        relabel1_notin [OF out1(3)] add_0)
  then show ?thesis using relabel1_range [OF in_w] by (simp add: cerebellum_def)
qed

lemma rank_none:
  assumes "band_of l = None"
  shows "rank_of seg l = 0"
proof -
  have "l \<notin> set (seg_labels seg)"
    using assms
    by (auto simp: seg_labels_def Let_def cort_gm_def deep_gm_def cerebellum_def wm_csf_def
        band_of_def split: if_splits)
  then show ?thesis by (simp add: rank_of_def relabel1_notin)
qed

lemma rank_band_mono:
  assumes "l1 \<in> set seg" "l2 \<in> set seg" "band_of l1 \<noteq> None" "band_of l2 \<noteq> None"
    and "rank_of seg l1 \<le> rank_of seg l2"
  shows "band_pos (band_of l1) \<le> band_pos (band_of l2)"
proof -
  obtain b1 b2 where b: "band_of l1 = Some b1" "band_of l2 = Some b2"
    using assms(3,4) by auto
  show ?thesis
    using assms(5) b
      rank_cort [of l1 seg] rank_deep [of l1 seg] rank_cereb [of l1 seg] rank_wm [of l1 seg]
      rank_cort [of l2 seg] rank_deep [of l2 seg] rank_cereb [of l2 seg] rank_wm [of l2 seg]
      assms(1,2)
    by (cases b1; cases b2) simp_all
qed

text \<open>Inside a band the ranks follow the label values.\<close>

lemma relabel1_sorted:
  "sorted labs \<Longrightarrow> distinct labs \<Longrightarrow> s \<in> set labs \<Longrightarrow> t \<in> set labs \<Longrightarrow>
   (relabel1 s labs k old1 \<le> relabel1 t labs k old2) = (s \<le> t)"
proof (induction labs arbitrary: k old1 old2)
  case Nil
  then show ?case by simp
next
  case (Cons lab labs)
  have srt: "sorted labs" and dst: "distinct labs" and notin: "lab \<notin> set labs"
    and least: "\<forall>x \<in> set labs. lab \<le> x"
    using Cons.prems(1,2) by simp_all
  consider (both) "s = lab" "t = lab" | (first) "s = lab" "t \<in> set labs"
    | (second) "s \<in> set labs" "t = lab" | (rest) "s \<in> set labs" "t \<in> set labs"
    using Cons.prems(3,4) by auto
  then show ?case
  proof cases
    case both
    then show ?thesis using notin by (simp add: relabel1_notin)
  next
    case first
    then have "t \<noteq> lab" using notin by auto
    moreover have "k + 1 \<le> relabel1 t labs (k + 1) old2"
      using relabel1_range [OF first(2)] by simp
    ultimately show ?thesis using first notin least by (simp add: relabel1_notin)
  next
    case second
    then have ne: "s \<noteq> lab" using notin by auto
    moreover have "k + 1 \<le> relabel1 s labs (k + 1) old1"
      using relabel1_range [OF second(1)] by simp
    moreover have "lab < s" using least second(1) ne by force
    ultimately show ?thesis using second notin by (simp add: relabel1_notin)
  next
    case rest
    then have "s \<noteq> lab" "t \<noteq> lab" using notin by auto
    then show ?thesis using Cons.IH [OF srt dst rest] by simp
  qed
qed

lemma unique_sorted: "sorted (unique xs)" and unique_distinct: "distinct (unique xs)"
  by (simp_all add: unique_def)

lemma band_lists_sorted:
  "sorted (cort_gm (unique seg))" "sorted (deep_gm (unique seg))" "sorted (wm_csf (unique seg))"
  using sorted_filter [of "\<lambda>x. x" "unique seg"] unique_sorted [of seg]
  by (simp_all add: cort_gm_def deep_gm_def wm_csf_def)

lemma band_lists_distinct:
  "distinct (cort_gm (unique seg))" "distinct (deep_gm (unique seg))"
  "distinct (wm_csf (unique seg))"
  by (simp_all add: cort_gm_def deep_gm_def wm_csf_def unique_distinct)

lemma rank_cort_eq:
  assumes "band_of l = Some CorticalGM"
  shows "rank_of seg l = relabel1 l (cort_gm (unique seg)) 0 0"
proof -
  have out: "l \<notin> set (deep_gm (unique seg) @ cerebellum @ wm_csf (unique seg))"
    using assms by (auto simp: deep_gm_def cerebellum_def wm_csf_def band_of_def split: if_splits)
  show ?thesis
    unfolding rank_of_def seg_labels_def Let_def
    by (subst relabel1_append) (simp only: relabel1_notin [OF out])
qed

lemma rank_deep_eq:
  assumes "band_of l = Some DeepGM"
  shows "rank_of seg l =
         relabel1 l (deep_gm (unique seg)) (int (length (cort_gm (unique seg)))) 0"
proof -
  have out1: "l \<notin> set (cort_gm (unique seg))"
    using assms by (auto simp: cort_gm_def band_of_def split: if_splits)
  have out2: "l \<notin> set cerebellum" "l \<notin> set (wm_csf (unique seg))"
    using assms by (auto simp: cerebellum_def wm_csf_def band_of_def split: if_splits)
  show ?thesis
    unfolding rank_of_def seg_labels_def Let_def
    by (simp only: relabel1_append relabel1_notin [OF out1] relabel1_notin [OF out2(1)]
        relabel1_notin [OF out2(2)] add_0)
qed

lemma rank_wm_eq:
  assumes "band_of l = Some WM_CSF"
  shows "rank_of seg l =
         relabel1 l (wm_csf (unique seg))
           (int (length (cort_gm (unique seg))) + int (length (deep_gm (unique seg)))
              + int (length cerebellum)) 0"
proof -
  have out1: "l \<notin> set (cort_gm (unique seg))" "l \<notin> set (deep_gm (unique seg))"
    "l \<notin> set cerebellum"
    using assms by (auto simp: cort_gm_def deep_gm_def cerebellum_def band_of_def split: if_splits)
  show ?thesis
    unfolding rank_of_def seg_labels_def Let_def
    by (simp only: relabel1_append relabel1_notin [OF out1(1)] relabel1_notin [OF out1(2)]
        relabel1_notin [OF out1(3)] add_0)
qed

lemma band_list_member:
  assumes "l \<in> set seg"
  shows "band_of l = Some CorticalGM \<Longrightarrow> l \<in> set (cort_gm (unique seg))"
    and "band_of l = Some DeepGM \<Longrightarrow> l \<in> set (deep_gm (unique seg))"
    and "band_of l = Some WM_CSF \<Longrightarrow> l \<in> set (wm_csf (unique seg))"
  using assms
  by (auto simp: cort_gm_def deep_gm_def wm_csf_def set_unique band_of_def split: if_splits)

lemma rank_order_iff:
  assumes "l1 \<in> set seg" "l2 \<in> set seg" "band_of l1 \<noteq> None" "band_of l2 \<noteq> None"
  shows "(rank_of seg l1 \<le> rank_of seg l2) = band_label_le l1 l2"
proof -
  obtain b1 b2 where b: "band_of l1 = Some b1" "band_of l2 = Some b2"
    using assms(3,4) by auto
  show ?thesis
  proof (cases "b1 = b2")
    case False
    then show ?thesis
      using b assms(1,2)
        rank_cort [of l1 seg] rank_deep [of l1 seg] rank_cereb [of l1 seg] rank_wm [of l1 seg]
        rank_cort [of l2 seg] rank_deep [of l2 seg] rank_cereb [of l2 seg] rank_wm [of l2 seg]
      by (cases b1; cases b2) (simp_all add: band_label_le_def)
  next
    case True
    show ?thesis
    proof (cases b1)
      case CorticalGM
      then show ?thesis
        using b True assms(1,2) band_lists_sorted(1) [of seg] band_lists_distinct(1) [of seg]
        by (simp add: rank_cort_eq relabel1_sorted band_list_member band_label_le_def)
    next
      case DeepGM
      then show ?thesis
        using b True assms(1,2) band_lists_sorted(2) [of seg] band_lists_distinct(2) [of seg]
        by (simp add: rank_deep_eq relabel1_sorted band_list_member band_label_le_def)
    next
      case Cerebellum
      then have "l1 = 255" "l2 = 255"
        using b True by (auto simp: band_of_def split: if_splits)
      then show ?thesis by (simp add: band_label_le_def)
    next
      case WM_CSF
      then show ?thesis
        using b True assms(1,2) band_lists_sorted(3) [of seg] band_lists_distinct(3) [of seg]
        by (simp add: rank_wm_eq relabel1_sorted band_list_member band_label_le_def)
    qed
  qed
qed

section \<open>The sorts and the mask\<close>

lemma set_unique_masked: "set (unique (masked_seg seg)) = {l \<in> set seg. 0 < l}"
  by (auto simp: set_unique masked_seg_def)

lemma stable_argsort_ok: "argsort_ok stable_argsort"
  by (simp add: argsort_ok_def stable_argsort_def)

lemma tie_order_mset: "mset (tie_order n) = mset [0..<n]"
proof (cases "n \<le> 17")
  case True
  then show ?thesis by (simp add: tie_order_def)
next
  case False
  define k where "k = n - 2"
  have k: "n = k + 2" "1 \<le> k"
    using False by (simp_all add: k_def)
  have "[1..<k + 2] = [1..<k] @ [k..<k + 2]"
    using k(2) by (rule upt_add_eq_append)
  moreover have "[k..<k + 2] = [k, k + 1]"
    by (simp add: upt_rec [of k] upt_rec [of "Suc k"])
  moreover have "[0..<k + 2] = 0 # [1..<k + 2]"
    by (simp add: upt_rec [of 0])
  ultimately have "[0..<n] = 0 # [1..<k] @ [k, k + 1]"
    by (simp add: k(1))
  then have "mset [0..<n] = mset (0 # rev [1..<k] @ [k, k + 1])"
    by (simp only: mset.simps mset_append mset_rev)
  then show ?thesis using False by (simp add: tie_order_def k_def)
qed

lemma partition_argsort_ok: "argsort_ok partition_argsort"
  by (simp add: argsort_ok_def partition_argsort_def tie_order_mset)

lemma argsort_ok_set: "argsort_ok argsort \<Longrightarrow> set (argsort keys) = {0..<length keys}"
  by (metis argsort_ok_def set_mset_mset set_upt)

lemma argsort_ok_length: "argsort_ok argsort \<Longrightarrow> length (argsort keys) = length keys"
  by (metis argsort_ok_def size_mset length_upt diff_zero)

lemma argsort_ok_all: "argsort_ok argsort \<Longrightarrow> list_all (\<lambda>i. i < length keys) (argsort keys)"
  by (simp add: list_all_iff argsort_ok_set)

lemma mask_select_length:
  "length msk = length xs \<Longrightarrow> length (mask_select xs msk) = length (masked_seg msk)"
proof (induction xs msk rule: list_induct2')
  case (4 x xs m ms)
  then show ?case by (simp add: mask_select_def masked_seg_def)
qed (simp_all add: mask_select_def masked_seg_def)

section \<open>The label bands\<close>

text \<open>
  C2, as the code has it: the comparisons of lines 130 to 133 are strict, so the
  cortical band holds the labels 101 to 199, the deep band the labels 31 to 99,
  the cerebellum is exactly 255 and the last band holds the positive labels up to
  9; the labels 100 and 30 are in no band.
\<close>

theorem band_partition_strict:
  "set (cort_gm (unique (masked_seg seg))) = {l \<in> set seg. 101 \<le> l \<and> l \<le> 199} \<and>
   set (deep_gm (unique (masked_seg seg))) = {l \<in> set seg. 31 \<le> l \<and> l \<le> 99} \<and>
   cerebellum = [255] \<and>
   set (wm_csf (unique (masked_seg seg))) = {l \<in> set seg. 1 \<le> l \<and> l \<le> 9} \<and>
   100 \<notin> set (seg_labels (masked_seg seg)) \<and>
   30 \<notin> set (seg_labels (masked_seg seg)) \<and>
   band_of 100 = None \<and> band_of 30 = None"
  by (auto simp: cort_gm_def deep_gm_def wm_csf_def cerebellum_def seg_labels_def Let_def
      set_unique_masked band_of_def)

text \<open>
  C2, as the specification words it, fails at the labels 100 and 30: the
  specification puts them in the cortical and the deep band, the code puts neither
  in its label list, and both voxels keep the initial rank 0.
\<close>

theorem band_partition_counterexample:
  "spec_band_of 100 = Some CorticalGM \<and> spec_band_of 30 = Some DeepGM \<and>
   masked_seg [100, 30, 0] = [100, 30] \<and>
   seg_labels (masked_seg [100, 30, 0]) = [255] \<and>
   newsegm (masked_seg [100, 30, 0]) = [0, 0]"
  by (simp add: spec_band_of_def masked_seg_def seg_labels_def unique_def cort_gm_def
      deep_gm_def wm_csf_def cerebellum_def newsegm_def)

section \<open>The permutation\<close>

lemma carpet_order_mset:
  "argsort_ok argsort \<Longrightarrow>
   mset (carpet_order argsort segmentation) = mset [0..<length (masked_seg segmentation)]"
  by (simp add: carpet_order_def argsort_ok_def newsegm_length)

lemma carpet_order_sorted:
  "argsort_ok argsort \<Longrightarrow>
   sorted (map (\<lambda>i. newsegm (masked_seg segmentation) ! i) (carpet_order argsort segmentation))"
  by (simp add: carpet_order_def argsort_ok_def)

lemma carpet_order_set:
  "argsort_ok argsort \<Longrightarrow>
   set (carpet_order argsort segmentation) = {0..<length (masked_seg segmentation)}"
  by (simp add: carpet_order_def argsort_ok_set newsegm_length)

lemma carpet_order_rank_sorted:
  assumes "argsort_ok argsort"
  shows "sorted_wrt (\<lambda>i j. rank_of (masked_seg segmentation) (masked_seg segmentation ! i)
                          \<le> rank_of (masked_seg segmentation) (masked_seg segmentation ! j))
           (carpet_order argsort segmentation)"
proof -
  let ?seg = "masked_seg segmentation"
  have "sorted_wrt (\<lambda>i j. newsegm ?seg ! i \<le> newsegm ?seg ! j) (carpet_order argsort segmentation)"
    using carpet_order_sorted [OF assms, of segmentation] by (simp add: sorted_wrt_map)
  then show ?thesis
  proof (rule sorted_wrt_mono_rel [rotated])
    fix i j
    assume "i \<in> set (carpet_order argsort segmentation)"
      "j \<in> set (carpet_order argsort segmentation)"
      "newsegm ?seg ! i \<le> newsegm ?seg ! j"
    then show "rank_of ?seg (?seg ! i) \<le> rank_of ?seg (?seg ! j)"
      by (simp add: carpet_order_set [OF assms] newsegm_nth rank_of_def)
  qed
qed

lemma id_clean_ok: "clean_ok id_clean"
  by (simp add: clean_ok_def id_clean_def)

section \<open>What a call returns\<close>

lemma take_rows_ok:
  "list_all (\<lambda>i. i < length (mrows m)) order \<Longrightarrow>
   take_rows m order = Inr \<lparr>ncols = ncols m, mrows = map (\<lambda>i. mrows m ! i) order\<rparr>"
  by (simp add: take_rows_def)

lemma masked_data_ok:
  "length segmentation = length (voxels func_data) \<Longrightarrow> 0 < ntsteps func_data \<Longrightarrow>
   masked_data func_data segmentation =
     Inr \<lparr>ncols = ntsteps func_data, mrows = mask_select (voxels func_data) segmentation\<rparr>"
  by (simp add: masked_data_def)

lemma fmricarpetplot_stat:
  assumes "argsort_ok argsort"
    and "length segmentation = length (voxels func_data)" and "0 < ntsteps func_data"
  shows "fmricarpetplot clean argsort func_data segmentation True map_range None =
     Inr \<lparr>seg_image = map (\<lambda>i. newsegm (masked_seg segmentation) ! i)
                        (carpet_order argsort segmentation),
          seg_vmax = int (length (seg_labels (masked_seg segmentation))) - 1,
          carpet_image =
            \<lparr>ncols = ntsteps func_data,
             mrows = map (\<lambda>i. mask_select (voxels func_data) segmentation ! i)
                       (carpet_order argsort segmentation)\<rparr>,
          carpet_cmap = ''Spectral_r'',
          carpet_vmin = fst (default_range map_range),
          carpet_vmax = snd (default_range map_range),
          xticks = xticks_of (ntsteps func_data),
          xlabel = ''Frame #'',
          xticklabels = map of_nat (xticks_of (ntsteps func_data))\<rparr>"
proof -
  have a: "list_all (\<lambda>i. i < length (newsegm (masked_seg segmentation)))
             (argsort (newsegm (masked_seg segmentation)))"
    by (rule argsort_ok_all [OF assms(1)])
  have b: "list_all (\<lambda>i. i < length (mask_select (voxels func_data) segmentation))
             (argsort (newsegm (masked_seg segmentation)))"
    using a by (simp add: mask_select_length [OF assms(2)] newsegm_length)
  show ?thesis
    unfolding fmricarpetplot_def Let_def
    by (simp add: masked_data_ok [OF assms(2,3)] a carpet_data_def take_rows_ok b
        tick_labels_def cmap_of_def carpet_order_def)
qed

lemma fmricarpetplot_raw:
  assumes "argsort_ok argsort" and "clean_ok clean"
    and "length segmentation = length (voxels func_data)" and "0 < ntsteps func_data"
  shows "fmricarpetplot clean argsort func_data segmentation False map_range tr_arg =
     (let tr = (case tr_arg of None \<Rightarrow> 1 | Some t \<Rightarrow> t);
          detrended = clean tr \<lparr>ncols = ntsteps func_data,
                                mrows = mask_select (voxels func_data) segmentation\<rparr>;
          sorted_rows = \<lparr>ncols = ntsteps func_data,
                         mrows = map (\<lambda>i. mrows detrended ! i)
                                   (carpet_order argsort segmentation)\<rparr>;
          shown = (if 800 < ntsteps func_data then decimate sorted_rows else sorted_rows);
          ticks = xticks_of (ncols shown)
      in Inr \<lparr>seg_image = map (\<lambda>i. newsegm (masked_seg segmentation) ! i)
                        (carpet_order argsort segmentation),
          seg_vmax = int (length (seg_labels (masked_seg segmentation))) - 1,
          carpet_image = shown,
          carpet_cmap = ''gray'',
          carpet_vmin = fst (default_range map_range),
          carpet_vmax = snd (default_range map_range),
          xticks = ticks,
          xlabel = (if tr_arg = None then ''Frame #'' else ''time (s)''),
          xticklabels =
            (if tr_arg = None then map of_nat ticks
             else if 800 < ntsteps func_data then map (\<lambda>x. tr * of_nat x * 2) ticks
             else map (\<lambda>x. tr * of_nat x) ticks)\<rparr>)"
proof -
  let ?data = "\<lparr>ncols = ntsteps func_data,
                 mrows = mask_select (voxels func_data) segmentation\<rparr>"
  have a: "list_all (\<lambda>i. i < length (newsegm (masked_seg segmentation)))
             (argsort (newsegm (masked_seg segmentation)))"
    by (rule argsort_ok_all [OF assms(1)])
  have c: "ncols (clean t ?data) = ntsteps func_data"
    "length (mrows (clean t ?data)) = length (masked_seg segmentation)" for t
    using assms(2) by (simp_all add: clean_ok_def mask_select_length [OF assms(3)])
  have b: "list_all (\<lambda>i. i < length (mrows (clean t ?data)))
             (argsort (newsegm (masked_seg segmentation)))" for t
    using a by (simp add: c newsegm_length)
  note d = take_rows_ok [OF b]
  show ?thesis
  proof (cases tr_arg)
    case None
    show ?thesis
      unfolding fmricarpetplot_def Let_def None
      by (simp add: masked_data_ok [OF assms(3,4)] a carpet_data_def d c
          tick_labels_def cmap_of_def carpet_order_def long_cutoff_var_def decimate_def
          comp_def)
  next
    case (Some t)
    show ?thesis
      unfolding fmricarpetplot_def Let_def Some
      by (simp add: masked_data_ok [OF assms(3,4)] a carpet_data_def d c
          tick_labels_def cmap_of_def carpet_order_def long_cutoff_var_def decimate_def
          comp_def)
  qed
qed

lemma fmricarpetplot_stat_interval:
  assumes "argsort_ok argsort"
    and "length segmentation = length (voxels func_data)" and "0 < ntsteps func_data"
  shows "fmricarpetplot clean argsort func_data segmentation True map_range (Some t)
           = Inl NameError"
proof -
  have a: "list_all (\<lambda>i. i < length (newsegm (masked_seg segmentation)))
             (argsort (newsegm (masked_seg segmentation)))"
    by (rule argsort_ok_all [OF assms(1)])
  have b: "list_all (\<lambda>i. i < length (mrows \<lparr>ncols = ntsteps func_data,
                 mrows = mask_select (voxels func_data) segmentation\<rparr>))
             (argsort (newsegm (masked_seg segmentation)))"
    using a by (simp add: mask_select_length [OF assms(2)] newsegm_length)
  show ?thesis
    unfolding fmricarpetplot_def Let_def
    by (simp add: masked_data_ok [OF assms(2,3)] a carpet_data_def take_rows_ok [OF b]
        tick_labels_def long_cutoff_var_def)
qed

lemma short_series_not_decimated:
  assumes "argsort_ok argsort" and "clean_ok clean"
    and "length segmentation = length (voxels func_data)"
    and "0 < ntsteps func_data" and "ntsteps func_data \<le> 800"
    and "stat \<longrightarrow> tr_arg = None"
  shows "\<exists>ax. fmricarpetplot clean argsort func_data segmentation stat map_range tr_arg
                = Inr ax \<and>
           ncols (carpet_image ax) = ntsteps func_data \<and>
           length (mrows (carpet_image ax)) = length (masked_seg segmentation) \<and>
           xticks ax = xticks_of (ntsteps func_data) \<and>
           (\<forall>t. tr_arg = Some t \<longrightarrow> xticklabels ax = map (\<lambda>x. t * of_nat x) (xticks ax))"
proof (cases stat)
  case True
  with assms(6) have "tr_arg = None" by simp
  then show ?thesis
    using True fmricarpetplot_stat [OF assms(1,3,4), of clean map_range]
      carpet_order_mset [OF assms(1), of segmentation, THEN arg_cong, of size]
    by simp
next
  case False
  then show ?thesis
    using fmricarpetplot_raw [OF assms(1,2,3,4), of map_range tr_arg] assms(5)
      carpet_order_mset [OF assms(1), of segmentation, THEN arg_cong, of size]
    by (simp add: Let_def)
qed

section \<open>Frame markers\<close>

lemma step_slice_upt:
  assumes "0 < k"
  shows "step_slice [0..<n] k = map (\<lambda>j. j * k) [0..<(n + k - 1) div k]"
proof -
  have "j * k < n" if "j < (n + k - 1) div k" for j
  proof -
    from that have "Suc j \<le> (n + k - 1) div k" by simp
    then have "Suc j * k \<le> n + k - 1"
      using assms by (simp add: less_eq_div_iff_mult_less_eq)
    then show ?thesis using assms by simp
  qed
  then show ?thesis
    by (simp add: step_slice_def)
qed

lemma tick_interval_pos: "0 < tick_interval n"
  by (simp add: tick_interval_def)

lemma xticks_of_eq:
  "xticks_of n =
     map (\<lambda>j. j * tick_interval n) [0..<(n + tick_interval n - 1) div tick_interval n]"
  by (simp add: xticks_of_def step_slice_upt [OF tick_interval_pos])

lemma xticks_of_in_range: "list_all (\<lambda>x. x < n) (xticks_of n)"
proof -
  have "j * tick_interval n < n" if "j < (n + tick_interval n - 1) div tick_interval n" for j
  proof -
    from that have "Suc j \<le> (n + tick_interval n - 1) div tick_interval n" by simp
    then have "Suc j * tick_interval n \<le> n + tick_interval n - 1"
      using tick_interval_pos [of n] by (simp add: less_eq_div_iff_mult_less_eq)
    then show ?thesis using tick_interval_pos [of n] by simp
  qed
  then show ?thesis by (simp add: xticks_of_eq list_all_iff)
qed

lemma xticks_401: "xticks_of 401 = [0, 40, 80, 120, 160, 200, 240, 280, 320, 360, 400]"
  by (simp add: xticks_of_eq tick_interval_def upt_rec)

section \<open>Concrete runs\<close>

lemma seg_ex: "newsegm (masked_seg [5, 150, 0, 255, 50, 160]) = [4, 0, 3, 2, 1]"
  by (simp add: masked_seg_def newsegm_def seg_labels_def unique_def cort_gm_def deep_gm_def
      cerebellum_def wm_csf_def)

lemma ex1_newsegm: "newsegm (masked_seg [150, 20, 0]) = [0, 0]"
  by (simp add: masked_seg_def newsegm_def seg_labels_def unique_def cort_gm_def deep_gm_def
      cerebellum_def wm_csf_def)

lemma ex1_order: "carpet_order stable_argsort [150, 20, 0] = [0, 1]"
  by (simp add: carpet_order_def ex1_newsegm stable_argsort_def upt_rec)

lemma ex5_newsegm: "newsegm (masked_seg [150]) = [0]"
  by (simp add: masked_seg_def newsegm_def seg_labels_def unique_def cort_gm_def deep_gm_def
      cerebellum_def wm_csf_def)

lemma ex5_order: "carpet_order stable_argsort [150] = [0]"
  by (simp add: carpet_order_def ex5_newsegm stable_argsort_def)

lemma ex4_newsegm: "newsegm (masked_seg (replicate 18 150)) = replicate 18 0"
  by (simp add: masked_seg_def newsegm_def seg_labels_def unique_def cort_gm_def deep_gm_def
      cerebellum_def wm_csf_def numeral_eq_Suc)

lemma ex4_order:
  "carpet_order partition_argsort (replicate 18 150) =
     [0, 15, 14, 13, 12, 11, 10, 9, 8, 7, 6, 5, 4, 3, 2, 1, 16, 17]"
proof -
  have "tie_order 18 = [0, 15, 14, 13, 12, 11, 10, 9, 8, 7, 6, 5, 4, 3, 2, 1, 16, 17]"
    by (simp add: tie_order_def upt_rec)
  moreover have "sort_key (\<lambda>i. replicate 18 (0 :: int) ! i)
          [0, 15, 14, 13, 12, 11, 10, 9, 8, 7, 6, 5, 4, 3, 2, 1, 16, 17] =
        [0, 15, 14, 13, 12, 11, 10, 9, 8, 7, 6, 5, 4, 3, 2, 1, 16, 17]"
    by simp
  ultimately show ?thesis
    by (simp add: carpet_order_def ex4_newsegm partition_argsort_def)
qed

lemma ex4b_newsegm: "newsegm (masked_seg [5, 150, 20, 0, 255, 50, 160]) = [4, 0, 0, 3, 2, 1]"
  by (simp add: masked_seg_def newsegm_def seg_labels_def unique_def cort_gm_def deep_gm_def
      cerebellum_def wm_csf_def)

section \<open>Grouping of the rows by band\<close>

text \<open>
  C3, as the code has it: when every positive label of the segmentation lies in
  one of the four bands as lines 130 to 133 delimit them (101 to 199, 31 to 99,
  255, 1 to 9), the permutation lists every masked voxel once, and the bands read
  along it are in the order cortical gray matter, deep gray matter, cerebellum,
  white matter/CSF: each band is one contiguous block of rows, whatever the
  labels inside a band are and however the sort breaks ties.
\<close>

theorem carpet_order_groups_bands:
  assumes "argsort_ok argsort"
    and "\<forall>l \<in> set (masked_seg segmentation). band_of l \<noteq> None"
  shows "mset (carpet_order argsort segmentation) = mset [0..<length (masked_seg segmentation)] \<and>
         sorted (map (\<lambda>i. band_pos (band_of (masked_seg segmentation ! i)))
                   (carpet_order argsort segmentation))"
proof -
  let ?seg = "masked_seg segmentation"
  have "sorted_wrt (\<lambda>i j. band_pos (band_of (?seg ! i)) \<le> band_pos (band_of (?seg ! j)))
          (carpet_order argsort segmentation)"
    using carpet_order_rank_sorted [OF assms(1), of segmentation]
  proof (rule sorted_wrt_mono_rel [rotated])
    fix i j
    assume i: "i \<in> set (carpet_order argsort segmentation)"
      and j: "j \<in> set (carpet_order argsort segmentation)"
      and le: "rank_of ?seg (?seg ! i) \<le> rank_of ?seg (?seg ! j)"
    have "?seg ! i \<in> set ?seg" "?seg ! j \<in> set ?seg"
      using i j by (simp_all add: carpet_order_set [OF assms(1)])
    then show "band_pos (band_of (?seg ! i)) \<le> band_pos (band_of (?seg ! j))"
      using assms(2) le by (intro rank_band_mono [of _ ?seg]) simp_all
  qed
  then show ?thesis
    by (simp add: carpet_order_mset [OF assms(1)] sorted_wrt_map)
qed

theorem carpet_order_groups_bands_witness:
  "argsort_ok stable_argsort \<and>
   map band_of (masked_seg [5, 150, 0, 255, 50, 160]) =
     [Some WM_CSF, Some CorticalGM, Some Cerebellum, Some DeepGM, Some CorticalGM] \<and>
   carpet_order stable_argsort [5, 150, 0, 255, 50, 160] = [1, 4, 3, 2, 0] \<and>
   mset (carpet_order stable_argsort [5, 150, 0, 255, 50, 160]) =
     mset [0..<length (masked_seg [5, 150, 0, 255, 50, 160])] \<and>
   sorted (map (\<lambda>i. band_pos (band_of (masked_seg [5, 150, 0, 255, 50, 160] ! i)))
             (carpet_order stable_argsort [5, 150, 0, 255, 50, 160]))"
proof -
  have h: "\<forall>l \<in> set (masked_seg [5, 150, 0, 255, 50, 160]). band_of l \<noteq> None"
    by (simp add: masked_seg_def band_of_def)
  have o: "carpet_order stable_argsort [5, 150, 0, 255, 50, 160] = [1, 4, 3, 2, 0]"
    by (simp add: carpet_order_def seg_ex stable_argsort_def upt_rec)
  have b: "map band_of (masked_seg [5, 150, 0, 255, 50, 160]) =
     [Some WM_CSF, Some CorticalGM, Some Cerebellum, Some DeepGM, Some CorticalGM]"
    by (simp add: masked_seg_def band_of_def)
  show ?thesis
    using carpet_order_groups_bands [OF stable_argsort_ok h] b o stable_argsort_ok by simp
qed

text \<open>
  C3, with the bands as the specification delimits them (100 to 199, 30 to 99),
  fails for the labels 150, 160, 30: the specification puts 30 in the deep band,
  the code gives it no rank of its own, so it keeps rank 0 beside label 150, and
  the rows come out cortical, deep, cortical. Both sorts return this order.
\<close>

theorem spec_bands_grouping_counterexample:
  "map spec_band_of (masked_seg [150, 160, 30]) =
     [Some CorticalGM, Some CorticalGM, Some DeepGM] \<and>
   newsegm (masked_seg [150, 160, 30]) = [0, 1, 0] \<and>
   carpet_order stable_argsort [150, 160, 30] = [0, 2, 1] \<and>
   map (\<lambda>i. spec_band_of (masked_seg [150, 160, 30] ! i))
     (carpet_order stable_argsort [150, 160, 30]) =
     [Some CorticalGM, Some DeepGM, Some CorticalGM] \<and>
   carpet_order partition_argsort [150, 160, 30] = [0, 2, 1]"
proof -
  have m: "masked_seg [150, 160, 30] = [150, 160, 30]" by (simp add: masked_seg_def)
  have r: "newsegm (masked_seg [150, 160, 30]) = [0, 1, 0]"
    by (simp add: m newsegm_def seg_labels_def unique_def cort_gm_def deep_gm_def
        cerebellum_def wm_csf_def)
  have o: "carpet_order stable_argsort [150, 160, 30] = [0, 2, 1]"
    by (simp add: carpet_order_def r stable_argsort_def upt_rec)
  have p: "carpet_order partition_argsort [150, 160, 30] = [0, 2, 1]"
    by (simp add: carpet_order_def r partition_argsort_def tie_order_def upt_rec)
  show ?thesis
    by (simp add: r o p) (simp add: m spec_band_of_def)
qed

section \<open>Labels outside the bands\<close>

text \<open>
  C1, as the code has it: nothing drops a positive label that lies outside the
  bands. The matrix has one row for every voxel with a positive label, the
  permutation lists each of these rows once, and a voxel whose label is in no
  band keeps the initial rank 0.
\<close>

theorem out_of_band_voxels_kept:
  assumes "argsort_ok argsort"
    and "length segmentation = length (voxels func_data)" and "0 < ntsteps func_data"
  shows "masked_data func_data segmentation =
           Inr \<lparr>ncols = ntsteps func_data,
                mrows = mask_select (voxels func_data) segmentation\<rparr> \<and>
         length (mask_select (voxels func_data) segmentation) =
           length (filter (\<lambda>l. 0 < l) segmentation) \<and>
         mset (carpet_order argsort segmentation) =
           mset [0..<length (filter (\<lambda>l. 0 < l) segmentation)] \<and>
         (\<forall>i < length (masked_seg segmentation).
            band_of (masked_seg segmentation ! i) = None \<longrightarrow>
            newsegm (masked_seg segmentation) ! i = 0)"
proof -
  have "newsegm (masked_seg segmentation) ! i = 0"
    if "i < length (masked_seg segmentation)" "band_of (masked_seg segmentation ! i) = None"
    for i
    using that rank_none [of "masked_seg segmentation ! i" "masked_seg segmentation"]
    by (simp add: newsegm_nth rank_of_def)
  then show ?thesis
    using carpet_order_mset [OF assms(1), of segmentation]
      mask_select_length [OF assms(2)] masked_data_ok [OF assms(2,3)]
    by (simp add: masked_seg_def)
qed

theorem out_of_band_voxels_kept_witness:
  "argsort_ok stable_argsort \<and>
   length [150, 20, 0 :: int] = length (voxels \<lparr>ntsteps = 1, voxels = [[1], [2], [3]]\<rparr>) \<and>
   0 < ntsteps \<lparr>ntsteps = 1, voxels = [[1], [2], [3]]\<rparr> \<and>
   masked_data \<lparr>ntsteps = 1, voxels = [[1], [2], [3]]\<rparr> [150, 20, 0] =
     Inr \<lparr>ncols = 1, mrows = [[1], [2]]\<rparr> \<and>
   length (mask_select [[1], [2], [3 :: rat]] [150, 20, 0]) = 2 \<and>
   mset (carpet_order stable_argsort [150, 20, 0]) = mset [0, 1] \<and>
   band_of (masked_seg [150, 20, 0] ! 1) = None \<and>
   newsegm (masked_seg [150, 20, 0]) ! 1 = 0"
proof -
  let ?fd = "\<lparr>ntsteps = 1, voxels = [[1], [2], [3]]\<rparr>"
  have l: "length [150, 20, 0 :: int] = length (voxels ?fd)" by simp
  have n: "0 < ntsteps ?fd" by simp
  note t = out_of_band_voxels_kept [OF stable_argsort_ok l n]
  have m: "masked_seg [150, 20, 0] = [150, 20]" by (simp add: masked_seg_def)
  have b: "band_of (masked_seg [150, 20, 0] ! 1) = None" by (simp add: m band_of_def)
  have "newsegm (masked_seg [150, 20, 0]) ! 1 = 0"
    using t b by (simp add: m)
  moreover have "masked_data ?fd [150, 20, 0] = Inr \<lparr>ncols = 1, mrows = [[1], [2]]\<rparr>"
    using t by (simp add: mask_select_def)
  moreover have "mset (carpet_order stable_argsort [150, 20, 0]) = mset [0, 1]"
    using t by (simp add: upt_rec)
  ultimately show ?thesis
    using stable_argsort_ok b by (simp add: mask_select_def)
qed

text \<open>
  C1, as the specification words it, fails for the labels 150, 20, 0 on three
  voxels: label 20 is in no band, one voxel has a label inside a band, and the
  matrix, the permutation and the displayed image all have two rows, the second
  one the voxel labelled 20.
\<close>

theorem out_of_band_excluded_counterexample:
  "band_of 20 = None \<and> spec_band_of 20 = None \<and>
   length (filter (\<lambda>l. 0 < l \<and> band_of l \<noteq> None) [150, 20, 0]) = 1 \<and>
   masked_data \<lparr>ntsteps = 1, voxels = [[1], [2], [3]]\<rparr> [150, 20, 0] =
     Inr \<lparr>ncols = 1, mrows = [[1], [2]]\<rparr> \<and>
   carpet_order stable_argsort [150, 20, 0] = [0, 1] \<and>
   map_sum id (\<lambda>ax. mrows (carpet_image ax))
     (fmricarpetplot id_clean stable_argsort \<lparr>ntsteps = 1, voxels = [[1], [2], [3]]\<rparr>
        [150, 20, 0] False None None) = Inr [[1], [2]]"
proof -
  have "map_sum id (\<lambda>ax. mrows (carpet_image ax))
     (fmricarpetplot id_clean stable_argsort \<lparr>ntsteps = 1, voxels = [[1], [2], [3]]\<rparr>
        [150, 20, 0] False None None) = Inr [[1], [2]]"
    by (subst fmricarpetplot_raw [OF stable_argsort_ok id_clean_ok])
      (simp_all add: Let_def ex1_order id_clean_def mask_select_def)
  then show ?thesis
    by (simp add: band_of_def spec_band_of_def masked_data_def mask_select_def ex1_order)
qed

section \<open>The unassigned threshold\<close>

text \<open>
  C10: for statistical-map input with a sampling interval, on arrays of matching
  shape with at least one time point, the call reaches the tick-label branch,
  reads \<open>long_cutoff\<close>, which only the branch for raw data assigns, and raises
  a name error; the same happens through \<open>fMRIPlot.plot\<close>.
\<close>

theorem stat_with_interval_raises_NameError:
  assumes "argsort_ok argsort"
    and "length segmentation = length (voxels func_data)" and "0 < ntsteps func_data"
  shows "fmricarpetplot clean argsort func_data segmentation True map_range (Some t)
           = Inl NameError \<and>
         plot clean argsort h
           \<lparr>self_func_data = func_data, self_seg_data = segmentation, self_stat_map = True,
            self_map_range = map_range, self_tr = Some t, self_confounds = []\<rparr>
           = Inl NameError"
  using fmricarpetplot_stat_interval [OF assms, of clean map_range t]
  by (simp add: plot_def)

theorem stat_with_interval_raises_NameError_witness:
  "argsort_ok stable_argsort \<and>
   length [150, 0 :: int] = length (voxels \<lparr>ntsteps = 3, voxels = [[1, 2, 3], [4, 5, 6]]\<rparr>) \<and>
   0 < ntsteps \<lparr>ntsteps = 3, voxels = [[1, 2, 3], [4, 5, 6]]\<rparr> \<and>
   fmricarpetplot id_clean stable_argsort \<lparr>ntsteps = 3, voxels = [[1, 2, 3], [4, 5, 6]]\<rparr>
     [150, 0] True None (Some 2) = Inl NameError"
  using stat_with_interval_raises_NameError
    [OF stable_argsort_ok, of "[150, 0]" "\<lparr>ntsteps = 3, voxels = [[1, 2, 3], [4, 5, 6]]\<rparr>"
      id_clean None 2]
  by (simp add: stable_argsort_ok)

section \<open>The order inside a band\<close>

text \<open>
  C4, as the code has it: for every sort that keeps the library's promise, the
  permutation lists every masked voxel exactly once and reads the ranks in
  ascending order. The rank belongs to the label, not to the band: a voxel whose
  label is in no band has rank 0, and for two voxels whose labels are in a band
  the ranks compare as the labels do by band first and by label value inside a
  band. So the voxels with a label in a band, read along the permutation, come
  band by band and, inside a band, label by label in ascending order. Row \<open>k\<close>
  of the reordered matrix is row \<open>order[k]\<close> of the matrix it is taken from,
  which is itself left as it was. Which of two rows of equal rank comes first
  is left to the library's default sort.
\<close>

theorem carpet_order_sorts_by_rank:
  assumes "argsort_ok argsort"
  shows "mset (carpet_order argsort segmentation) = mset [0..<length (masked_seg segmentation)] \<and>
         sorted (map (\<lambda>i. newsegm (masked_seg segmentation) ! i)
                   (carpet_order argsort segmentation)) \<and>
         (\<forall>i < length (masked_seg segmentation). \<forall>j < length (masked_seg segmentation).
            band_of (masked_seg segmentation ! i) \<noteq> None \<and>
            band_of (masked_seg segmentation ! j) \<noteq> None \<longrightarrow>
            (newsegm (masked_seg segmentation) ! i \<le> newsegm (masked_seg segmentation) ! j)
              = band_label_le (masked_seg segmentation ! i) (masked_seg segmentation ! j)) \<and>
         (\<forall>i < length (masked_seg segmentation).
            band_of (masked_seg segmentation ! i) = None \<longrightarrow>
            newsegm (masked_seg segmentation) ! i = 0) \<and>
         sorted_wrt (\<lambda>i j. band_label_le (masked_seg segmentation ! i)
                                        (masked_seg segmentation ! j))
           (filter (\<lambda>i. band_of (masked_seg segmentation ! i) \<noteq> None)
              (carpet_order argsort segmentation)) \<and>
         (\<forall>m. length (mrows m) = length (masked_seg segmentation) \<longrightarrow>
              take_rows m (carpet_order argsort segmentation) =
                Inr \<lparr>ncols = ncols m,
                     mrows = map (\<lambda>i. mrows m ! i) (carpet_order argsort segmentation)\<rparr>)"
proof -
  let ?seg = "masked_seg segmentation"
  let ?order = "carpet_order argsort segmentation"
  have key: "(newsegm ?seg ! i \<le> newsegm ?seg ! j) = band_label_le (?seg ! i) (?seg ! j)"
    if "i < length ?seg" "j < length ?seg"
      "band_of (?seg ! i) \<noteq> None" "band_of (?seg ! j) \<noteq> None" for i j
    using that rank_order_iff [of "?seg ! i" ?seg "?seg ! j"]
    by (simp add: newsegm_nth rank_of_def)
  have unranked: "newsegm ?seg ! i = 0"
    if "i < length ?seg" "band_of (?seg ! i) = None" for i
    using that rank_none [of "?seg ! i" ?seg] by (simp add: newsegm_nth rank_of_def)
  have "sorted_wrt (\<lambda>i j. newsegm ?seg ! i \<le> newsegm ?seg ! j) ?order"
    using carpet_order_sorted [OF assms, of segmentation] by (simp add: sorted_wrt_map)
  then have "sorted_wrt (\<lambda>i j. newsegm ?seg ! i \<le> newsegm ?seg ! j)
               (filter (\<lambda>i. band_of (?seg ! i) \<noteq> None) ?order)"
    by (rule sorted_wrt_filter)
  then have grouped: "sorted_wrt (\<lambda>i j. band_label_le (?seg ! i) (?seg ! j))
               (filter (\<lambda>i. band_of (?seg ! i) \<noteq> None) ?order)"
  proof (rule sorted_wrt_mono_rel [rotated])
    fix i j
    assume "i \<in> set (filter (\<lambda>i. band_of (?seg ! i) \<noteq> None) ?order)"
      and "j \<in> set (filter (\<lambda>i. band_of (?seg ! i) \<noteq> None) ?order)"
      and "newsegm ?seg ! i \<le> newsegm ?seg ! j"
    then show "band_label_le (?seg ! i) (?seg ! j)"
      using key [of i j] by (simp add: carpet_order_set [OF assms])
  qed
  have taken: "take_rows m ?order =
                 Inr \<lparr>ncols = ncols m, mrows = map (\<lambda>i. mrows m ! i) ?order\<rparr>"
    if "length (mrows m) = length ?seg" for m :: matrix
    using that by (intro take_rows_ok) (simp add: list_all_iff carpet_order_set [OF assms])
  show ?thesis
    using carpet_order_mset [OF assms, of segmentation]
      carpet_order_sorted [OF assms, of segmentation] key unranked grouped taken
    by blast
qed

theorem carpet_order_sorts_by_rank_witness:
  "argsort_ok stable_argsort \<and>
   masked_seg [5, 150, 20, 0, 255, 50, 160] = [5, 150, 20, 255, 50, 160] \<and>
   newsegm (masked_seg [5, 150, 20, 0, 255, 50, 160]) = [4, 0, 0, 3, 2, 1] \<and>
   carpet_order stable_argsort [5, 150, 20, 0, 255, 50, 160] = [1, 2, 5, 4, 3, 0] \<and>
   band_of 20 = None \<and>
   filter (\<lambda>i. band_of (masked_seg [5, 150, 20, 0, 255, 50, 160] ! i) \<noteq> None)
     (carpet_order stable_argsort [5, 150, 20, 0, 255, 50, 160]) = [1, 5, 4, 3, 0] \<and>
   sorted_wrt (\<lambda>i j. band_label_le (masked_seg [5, 150, 20, 0, 255, 50, 160] ! i)
                                  (masked_seg [5, 150, 20, 0, 255, 50, 160] ! j))
     [1, 5, 4, 3, 0] \<and>
   take_rows \<lparr>ncols = 1, mrows = [[10], [11], [12], [13], [14], [15]]\<rparr>
     (carpet_order stable_argsort [5, 150, 20, 0, 255, 50, 160]) =
     Inr \<lparr>ncols = 1, mrows = [[11], [12], [15], [14], [13], [10]]\<rparr>"
proof -
  let ?s = "[5, 150, 20, 0, 255, 50, 160] :: int list"
  note t = carpet_order_sorts_by_rank [OF stable_argsort_ok, of ?s]
  have m: "masked_seg ?s = [5, 150, 20, 255, 50, 160]" by (simp add: masked_seg_def)
  have o: "carpet_order stable_argsort ?s = [1, 2, 5, 4, 3, 0]"
    by (simp add: carpet_order_def ex4b_newsegm stable_argsort_def upt_rec)
  have f: "filter (\<lambda>i. band_of (masked_seg ?s ! i) \<noteq> None) (carpet_order stable_argsort ?s)
           = [1, 5, 4, 3, 0]"
    by (simp add: o m band_of_def)
  have g: "sorted_wrt (\<lambda>i j. band_label_le (masked_seg ?s ! i) (masked_seg ?s ! j))
             [1, 5, 4, 3, 0]"
    using t by (simp only: f)
  have r: "take_rows \<lparr>ncols = 1, mrows = [[10], [11], [12], [13], [14], [15]]\<rparr>
     (carpet_order stable_argsort ?s) =
     Inr \<lparr>ncols = 1, mrows = [[11], [12], [15], [14], [13], [10]]\<rparr>"
    using t by (simp add: o m)
  show ?thesis
    using stable_argsort_ok m ex4b_newsegm o f g r by (simp add: band_of_def)
qed

text \<open>
  C4, as the specification words it, asks for a stable sort by band rank. The
  code calls \<open>np.argsort\<close> without asking for a stable one, and a sort that keeps
  the library's promise may swap ties: on eighteen voxels of label 150, all of
  rank 0, the second sort returns the rows in the order 0, 15, 14, ..., 1, 16, 17.
  Nor is the rank that of the band: the labels 160 and 150 are both cortical,
  they get the ranks 1 and 0, and both sorts put the second voxel before the
  first.
\<close>

theorem stable_sort_counterexample:
  "argsort_ok partition_argsort \<and>
   newsegm (masked_seg (replicate 18 150)) = replicate 18 0 \<and>
   carpet_order partition_argsort (replicate 18 150) =
     [0, 15, 14, 13, 12, 11, 10, 9, 8, 7, 6, 5, 4, 3, 2, 1, 16, 17] \<and>
   \<not> stable_order (newsegm (masked_seg (replicate 18 150)))
        (carpet_order partition_argsort (replicate 18 150)) \<and>
   band_of 160 = Some CorticalGM \<and> band_of 150 = Some CorticalGM \<and>
   newsegm (masked_seg [160, 150]) = [1, 0] \<and>
   carpet_order stable_argsort [160, 150] = [1, 0] \<and>
   carpet_order partition_argsort [160, 150] = [1, 0]"
proof -
  let ?order = "[0, 15, 14, 13, 12, 11, 10, 9, 8, 7, 6, 5, 4, 3, 2, 1, 16, 17] :: nat list"
  have "\<exists>a \<in> set [0..<length ?order]. \<exists>b \<in> set [0..<length ?order].
          swapped_tie (replicate 18 0) ?order a b"
    by (rule bexI [of _ 1], rule bexI [of _ 2]) (simp_all add: swapped_tie_def)
  then have "\<not> stable_order (replicate 18 0) ?order"
    unfolding stable_order_def list_ex_iff by blast
  then have ties: "\<not> stable_order (newsegm (masked_seg (replicate 18 150)))
        (carpet_order partition_argsort (replicate 18 150))"
    by (simp only: ex4_newsegm ex4_order simp_thms)
  have ranks: "newsegm (masked_seg [160, 150]) = [1, 0]"
    by (simp add: masked_seg_def newsegm_def seg_labels_def unique_def cort_gm_def deep_gm_def
        cerebellum_def wm_csf_def)
  have "carpet_order stable_argsort [160, 150] = [1, 0]"
    by (simp add: carpet_order_def ranks stable_argsort_def upt_rec)
  moreover have "carpet_order partition_argsort [160, 150] = [1, 0]"
    by (simp add: carpet_order_def ranks partition_argsort_def tie_order_def upt_rec)
  ultimately show ?thesis
    using partition_argsort_ok ties ranks
    by (simp add: ex4_newsegm ex4_order band_of_def)
qed

section \<open>Decimation of long series\<close>

text \<open>
  C5, as the code has it: for raw (non-statistical) input with more than 800
  time points, on arrays of matching shape, the call returns; the image has
  \<open>(ntsteps + 1) div 2\<close> columns, every row being every second sample of the
  detrended row, starting with the first; the frame markers are columns of the
  image; and with a sampling interval \<open>t\<close> the label of the marker at column
  \<open>x\<close> is \<open>t\<close> times \<open>2 * x\<close>, the time of the original frame shown there.
\<close>

theorem long_raw_series_decimated:
  assumes "argsort_ok argsort" and "clean_ok clean"
    and "length segmentation = length (voxels func_data)" and "800 < ntsteps func_data"
  shows "\<exists>ax. fmricarpetplot clean argsort func_data segmentation False map_range tr_arg
                = Inr ax \<and>
           ncols (carpet_image ax) = (ntsteps func_data + 1) div 2 \<and>
           mrows (carpet_image ax) =
             map (\<lambda>i. step_slice
                         (mrows (clean (case tr_arg of None \<Rightarrow> 1 | Some t \<Rightarrow> t)
                                   \<lparr>ncols = ntsteps func_data,
                                    mrows = mask_select (voxels func_data) segmentation\<rparr>) ! i) 2)
               (carpet_order argsort segmentation) \<and>
           (\<forall>r :: rat list. step_slice r 2 = map (\<lambda>j. r ! (j * 2)) [0..<(length r + 1) div 2]) \<and>
           xticks ax = xticks_of (ncols (carpet_image ax)) \<and>
           list_all (\<lambda>x. x < ncols (carpet_image ax)) (xticks ax) \<and>
           (\<forall>t. tr_arg = Some t \<longrightarrow>
                xticklabels ax = map (\<lambda>x. t * of_nat (2 * x)) (xticks ax))"
proof -
  have pos: "0 < ntsteps func_data" using assms(4) by simp
  show ?thesis
    using assms(4) xticks_of_in_range [of "(ntsteps func_data + 1) div 2"]
    by (simp add: fmricarpetplot_raw [OF assms(1,2,3) pos] Let_def decimate_def
        step_slice_def comp_def mult.commute mult.left_commute)
qed

theorem long_raw_series_decimated_witness:
  "argsort_ok stable_argsort \<and> clean_ok id_clean \<and>
   length [150 :: int] = length (voxels \<lparr>ntsteps = 802, voxels = [replicate 802 0]\<rparr>) \<and>
   800 < ntsteps \<lparr>ntsteps = 802, voxels = [replicate 802 0]\<rparr> \<and>
   map_sum id (\<lambda>ax. (ncols (carpet_image ax), xticks ax, xticklabels ax))
     (fmricarpetplot id_clean stable_argsort \<lparr>ntsteps = 802, voxels = [replicate 802 0]\<rparr>
        [150] False None (Some (5 / 2)))
   = Inr (401, [0, 40, 80, 120, 160, 200, 240, 280, 320, 360, 400],
               [0, 200, 400, 600, 800, 1000, 1200, 1400, 1600, 1800, 2000])"
proof -
  let ?fd = "\<lparr>ntsteps = 802, voxels = [replicate 802 0]\<rparr>"
  have l: "length [150 :: int] = length (voxels ?fd)" by simp
  have n: "800 < ntsteps ?fd" by simp
  obtain ax where ax:
    "fmricarpetplot id_clean stable_argsort ?fd [150] False None (Some (5 / 2)) = Inr ax"
    "ncols (carpet_image ax) = (ntsteps ?fd + 1) div 2"
    "xticks ax = xticks_of (ncols (carpet_image ax))"
    "xticklabels ax = map (\<lambda>x. (5 / 2) * of_nat (2 * x)) (xticks ax)"
    using long_raw_series_decimated [OF stable_argsort_ok id_clean_ok l n, of None "Some (5 / 2)"]
    by blast
  have c: "ncols (carpet_image ax) = 401" using ax(2) by simp
  show ?thesis
    using stable_argsort_ok id_clean_ok
    by (simp add: ax(1) c ax(3) ax(4) xticks_401)
qed

text \<open>
  C5, as the specification words it, fails for 802 time points: statistical-map
  input is shown with all 802 columns, and raw input without a sampling interval
  is decimated to 401 columns with the markers labelled by the displayed column
  (40, 80, ...), not by the original frame (80, 160, ...).
\<close>

theorem long_series_counterexample:
  "map_sum id (\<lambda>ax. ncols (carpet_image ax))
     (fmricarpetplot id_clean stable_argsort \<lparr>ntsteps = 802, voxels = [replicate 802 0]\<rparr>
        [150] True None None) = Inr 802 \<and>
   map_sum id (\<lambda>ax. (ncols (carpet_image ax), xticks ax, xticklabels ax))
     (fmricarpetplot id_clean stable_argsort \<lparr>ntsteps = 802, voxels = [replicate 802 0]\<rparr>
        [150] False None None)
   = Inr (401, [0, 40, 80, 120, 160, 200, 240, 280, 320, 360, 400],
               [0, 40, 80, 120, 160, 200, 240, 280, 320, 360, 400])"
proof -
  let ?fd = "\<lparr>ntsteps = 802, voxels = [replicate 802 0]\<rparr>"
  have l: "length [150 :: int] = length (voxels ?fd)" by simp
  have n: "0 < ntsteps ?fd" by simp
  have "map_sum id (\<lambda>ax. ncols (carpet_image ax))
     (fmricarpetplot id_clean stable_argsort ?fd [150] True None None) = Inr 802"
    by (simp add: fmricarpetplot_stat [OF stable_argsort_ok l n])
  moreover have "map_sum id (\<lambda>ax. (ncols (carpet_image ax), xticks ax, xticklabels ax))
     (fmricarpetplot id_clean stable_argsort ?fd [150] False None None)
     = Inr (401, [0, 40, 80, 120, 160, 200, 240, 280, 320, 360, 400],
               [0, 40, 80, 120, 160, 200, 240, 280, 320, 360, 400])"
    by (simp add: fmricarpetplot_raw [OF stable_argsort_ok id_clean_ok l n] Let_def
        decimate_def xticks_401)
  ultimately show ?thesis by simp
qed

text \<open>
  C6 holds for raw input and for statistical-map input without a sampling
  interval (\<open>short_series_not_decimated\<close>). For statistical-map input with a
  sampling interval no tick label is produced: with 50 time points and an
  interval of 2 the call ends in the name error of the unassigned threshold,
  where the same volume as raw input gets the labels \<open>2 * frame\<close>.
\<close>

theorem short_stat_series_with_interval_fails:
  "fmricarpetplot id_clean stable_argsort \<lparr>ntsteps = 50, voxels = [replicate 50 0]\<rparr>
     [150] True None (Some 2) = Inl NameError \<and>
   map_sum id (\<lambda>ax. (ncols (carpet_image ax), xticks ax, xticklabels ax))
     (fmricarpetplot id_clean stable_argsort \<lparr>ntsteps = 50, voxels = [replicate 50 0]\<rparr>
        [150] False None (Some 2))
   = Inr (50, [0, 5, 10, 15, 20, 25, 30, 35, 40, 45], [0, 10, 20, 30, 40, 50, 60, 70, 80, 90])"
proof -
  let ?fd = "\<lparr>ntsteps = 50, voxels = [replicate 50 0]\<rparr>"
  have l: "length [150 :: int] = length (voxels ?fd)" by simp
  have n: "0 < ntsteps ?fd" by simp
  have "fmricarpetplot id_clean stable_argsort ?fd [150] True None (Some 2) = Inl NameError"
    by (rule fmricarpetplot_stat_interval [OF stable_argsort_ok l n])
  moreover have "xticks_of 50 = [0, 5, 10, 15, 20, 25, 30, 35, 40, 45]"
    by (simp add: xticks_of_eq tick_interval_def upt_rec)
  ultimately show ?thesis
    by (simp add: fmricarpetplot_raw [OF stable_argsort_ok id_clean_ok l n] Let_def)
qed

section \<open>The display range\<close>

text \<open>
  C7, as the code has it: when \<open>map_range\<close> is not given, the range handed to
  the image is \<open>(-2, 2)\<close> for both kinds of input; raw input is drawn with the
  \<open>gray\<close> colormap and statistical-map input with the diverging \<open>Spectral_r\<close>.
\<close>

theorem default_range_both_kinds:
  assumes "argsort_ok argsort" and "clean_ok clean"
    and "length segmentation = length (voxels func_data)" and "0 < ntsteps func_data"
    and "stat \<longrightarrow> tr_arg = None"
  shows "\<exists>ax. fmricarpetplot clean argsort func_data segmentation stat None tr_arg = Inr ax \<and>
           carpet_vmin ax = - 2 \<and> carpet_vmax ax = 2 \<and>
           carpet_cmap ax = (if stat then ''Spectral_r'' else ''gray'')"
proof (cases stat)
  case True
  with assms(5) have "tr_arg = None" by simp
  then show ?thesis
    using True fmricarpetplot_stat [OF assms(1,3,4), of clean None]
    by (simp add: default_range_def)
next
  case False
  then show ?thesis
    using fmricarpetplot_raw [OF assms(1,2,3,4), of None tr_arg]
    by (simp add: default_range_def Let_def)
qed

theorem default_range_both_kinds_witness:
  "argsort_ok stable_argsort \<and> clean_ok id_clean \<and>
   length [150, 0 :: int] = length (voxels \<lparr>ntsteps = 3, voxels = [[1, 2, 3], [4, 5, 6]]\<rparr>) \<and>
   0 < ntsteps \<lparr>ntsteps = 3, voxels = [[1, 2, 3], [4, 5, 6]]\<rparr> \<and>
   map_sum id (\<lambda>ax. (carpet_vmin ax, carpet_vmax ax, carpet_cmap ax))
     (fmricarpetplot id_clean stable_argsort \<lparr>ntsteps = 3, voxels = [[1, 2, 3], [4, 5, 6]]\<rparr>
        [150, 0] False None (Some 2)) = Inr (- 2, 2, ''gray'')"
proof -
  let ?fd = "\<lparr>ntsteps = 3, voxels = [[1, 2, 3], [4, 5, 6]]\<rparr>"
  have l: "length [150, 0 :: int] = length (voxels ?fd)" by simp
  have n: "0 < ntsteps ?fd" by simp
  have s: "False \<longrightarrow> Some (2 :: rat) = None" by simp
  obtain ax where
    "fmricarpetplot id_clean stable_argsort ?fd [150, 0] False None (Some 2) = Inr ax"
    "carpet_vmin ax = - 2" "carpet_vmax ax = 2" "carpet_cmap ax = ''gray''"
    using default_range_both_kinds [OF stable_argsort_ok id_clean_ok l n s] by auto
  then show ?thesis
    using stable_argsort_ok id_clean_ok by simp
qed

text \<open>
  C7, as the specification words it, says that no range is enforced by default
  for statistical-map input; the call hands the range \<open>(-2, 2)\<close> to the image
  there too.
\<close>

theorem stat_default_range_counterexample:
  "map_sum id (\<lambda>ax. (carpet_vmin ax, carpet_vmax ax, carpet_cmap ax))
     (fmricarpetplot id_clean stable_argsort \<lparr>ntsteps = 3, voxels = [[1, 2, 3], [4, 5, 6]]\<rparr>
        [150, 0] True None None) = Inr (- 2, 2, ''Spectral_r'')"
proof -
  let ?fd = "\<lparr>ntsteps = 3, voxels = [[1, 2, 3], [4, 5, 6]]\<rparr>"
  have l: "length [150, 0 :: int] = length (voxels ?fd)" by simp
  have n: "0 < ntsteps ?fd" by simp
  show ?thesis
    by (simp add: fmricarpetplot_stat [OF stable_argsort_ok l n] default_range_def)
qed

section \<open>One voxel per band\<close>

lemma snd_mask_zip:
  "length xs = length seg \<Longrightarrow>
   map snd (filter (\<lambda>p. 0 < snd p) (zip xs seg)) = masked_seg seg"
  by (induction xs seg rule: list_induct2) (simp_all add: masked_seg_def)

lemma unique_set: "unique xs = sorted_list_of_set (set xs)"
  by (simp add: unique_def sorted_list_of_set_sort_remdups)

lemma newsegm_map: "newsegm seg = map (rank_of seg) seg"
  by (intro nth_equalityI) (simp_all add: newsegm_length newsegm_nth rank_of_def)

lemma mset_single_list: "mset xs = {#x#} \<Longrightarrow> xs = [x]"
  by (cases xs) auto

lemma one_per_band_labels:
  assumes "set seg = {150, 50, 255, 5}"
  shows "seg_labels seg = [150, 50, 255, 5]"
proof -
  have "sorted_list_of_set {150, 50, 255, 5 :: int} = [5, 50, 150, 255]"
    by (rule sorted_distinct_set_unique) auto
  then have "unique seg = [5, 50, 150, 255]"
    by (simp add: unique_set assms)
  then show ?thesis
    by (simp add: seg_labels_def cort_gm_def deep_gm_def cerebellum_def wm_csf_def)
qed

lemma one_per_band_order:
  assumes "argsort_ok argsort" and "mset (masked_seg segmentation) = {#150, 50, 255, 5#}"
  shows "map (\<lambda>i. masked_seg segmentation ! i) (carpet_order argsort segmentation)
           = [150, 50, 255, 5]"
proof -
  let ?seg = "masked_seg segmentation"
  let ?order = "carpet_order argsort segmentation"
  have set_seg: "set ?seg = {150, 50, 255, 5}"
    using assms(2) by (metis set_mset_mset set_mset_add_mset_insert set_mset_empty)
  have labels: "seg_labels ?seg = [150, 50, 255, 5]"
    by (rule one_per_band_labels [OF set_seg])
  have rank: "rank_of ?seg 150 = 0" "rank_of ?seg 50 = 1" "rank_of ?seg 255 = 2"
    "rank_of ?seg 5 = 3"
    by (simp_all add: rank_of_def labels)
  have unrank: "label_at (rank_of ?seg l) = l" if "l \<in> set ?seg" for l
    using that rank by (auto simp: set_seg label_at_def)
  let ?ks = "map (\<lambda>i. newsegm ?seg ! i) ?order"
  have "mset ?ks = image_mset (\<lambda>i. newsegm ?seg ! i) (mset [0..<length (newsegm ?seg)])"
    using carpet_order_mset [OF assms(1), of segmentation] by (simp add: newsegm_length)
  also have "\<dots> = mset (map (\<lambda>i. newsegm ?seg ! i) [0..<length (newsegm ?seg)])"
    by simp
  also have "\<dots> = mset (newsegm ?seg)"
    by (simp only: map_nth)
  also have "\<dots> = image_mset (rank_of ?seg) (mset ?seg)"
    by (simp add: newsegm_map)
  also have "\<dots> = mset [0, 1, 2, 3]"
    by (simp add: assms(2) rank)
  finally have "mset ?ks = mset [0, 1, 2, 3]" .
  moreover have "sorted ?ks" by (rule carpet_order_sorted [OF assms(1)])
  ultimately have "sort [0, 1, 2, 3] = ?ks"
    by (rule properties_for_sort)
  then have ks: "?ks = [0, 1, 2, 3]" by simp
  have "map (\<lambda>i. ?seg ! i) ?order = map (\<lambda>i. label_at (newsegm ?seg ! i)) ?order"
  proof (rule map_cong [OF refl])
    fix i assume "i \<in> set ?order"
    then have i: "i < length ?seg" by (simp add: carpet_order_set [OF assms(1)])
    then show "?seg ! i = label_at (newsegm ?seg ! i)"
      using unrank [of "?seg ! i"] by (simp add: newsegm_nth rank_of_def)
  qed
  also have "\<dots> = map label_at ?ks" by (simp add: comp_def)
  also have "\<dots> = [150, 50, 255, 5]" by (simp add: ks label_at_def)
  finally show ?thesis .
qed

lemma four_pairs:
  "map snd ps = [w, x, y, z] \<Longrightarrow> \<exists>a b c d. ps = [(a, w), (b, x), (c, y), (d, z)]"
  by (auto simp: map_eq_Cons_conv)

lemma one_per_band_rows:
  assumes "argsort_ok argsort"
    and "length (voxels func_data) = length segmentation"
    and "mset (masked_seg segmentation) = {#150, 50, 255, 5#}"
  shows "map (\<lambda>i. mask_select (voxels func_data) segmentation ! i)
           (carpet_order argsort segmentation) =
         rows_with_label func_data segmentation 150 @
         rows_with_label func_data segmentation 50 @
         rows_with_label func_data segmentation 255 @
         rows_with_label func_data segmentation 5"
proof -
  let ?seg = "masked_seg segmentation"
  let ?order = "carpet_order argsort segmentation"
  let ?zs = "filter (\<lambda>p. 0 < snd p) (zip (voxels func_data) segmentation)"
  let ?ps = "map (\<lambda>i. ?zs ! i) ?order"
  have snd_zs: "map snd ?zs = ?seg" by (rule snd_mask_zip [OF assms(2)])
  then have len_zs: "length ?zs = length ?seg" by (metis length_map)
  have in_range: "i < length ?zs" if "i \<in> set ?order" for i
    using that by (simp add: carpet_order_set [OF assms(1)] len_zs)
  have "mset ?ps = image_mset (\<lambda>i. ?zs ! i) (mset [0..<length ?zs])"
    using carpet_order_mset [OF assms(1), of segmentation] by (simp add: len_zs)
  also have "\<dots> = mset (map (\<lambda>i. ?zs ! i) [0..<length ?zs])" by simp
  also have "\<dots> = mset ?zs" by (simp only: map_nth)
  finally have perm: "mset ?ps = mset ?zs" .
  have "map snd ?ps = map (\<lambda>i. ?seg ! i) ?order"
  proof -
    have "snd (?zs ! i) = ?seg ! i" if "i \<in> set ?order" for i
      using in_range [OF that] snd_zs by (metis nth_map)
    then show ?thesis by simp
  qed
  then have snd_ps: "map snd ?ps = [150, 50, 255, 5]"
    by (simp only: one_per_band_order [OF assms(1,3)])
  from four_pairs [OF snd_ps]
  obtain a b c d where ps: "?ps = [(a, 150), (b, 50), (c, 255), (d, 5)]"
    by auto
  have pick: "filter (\<lambda>p. snd p = l) (zip (voxels func_data) segmentation)
                = filter (\<lambda>p. snd p = l) ?zs" if "0 < l" for l
    using that by (auto intro: filter_cong)
  have sel: "mset (filter (\<lambda>p. snd p = l) ?zs) = mset (filter (\<lambda>p. snd p = l) ?ps)" for l
    by (simp only: mset_filter perm)
  have r150: "rows_with_label func_data segmentation 150 = [a]"
    using sel [of 150] by (simp add: rows_with_label_def pick ps mset_single_list)
  have r50: "rows_with_label func_data segmentation 50 = [b]"
    using sel [of 50] by (simp add: rows_with_label_def pick ps mset_single_list)
  have r255: "rows_with_label func_data segmentation 255 = [c]"
    using sel [of 255] by (simp add: rows_with_label_def pick ps mset_single_list)
  have r5: "rows_with_label func_data segmentation 5 = [d]"
    using sel [of 5] by (simp add: rows_with_label_def pick ps mset_single_list)
  have "map (\<lambda>i. mask_select (voxels func_data) segmentation ! i) ?order = map fst ?ps"
  proof -
    have "mask_select (voxels func_data) segmentation ! i = fst (?zs ! i)"
      if "i \<in> set ?order" for i
      using in_range [OF that] by (simp add: mask_select_def)
    then show ?thesis by simp
  qed
  also have "\<dots> = [a, b, c, d]" by (simp only: ps) simp
  finally show ?thesis by (simp add: r150 r50 r255 r5)
qed

lemma ex8_mset: "mset ex8_seg = mset ([150, 50, 255, 5] @ replicate 60 0)"
proof -
  have "replicate 60 (0 :: int) = replicate 10 0 @ replicate 20 0 @ replicate 30 0"
    by (simp add: replicate_add [symmetric])
  then show ?thesis by (simp add: ex8_seg_def)
qed

lemma ex8_seg_list:
  "ex8_seg =
    [0, 0, 0, 0, 0, 0, 0, 0, 0, 0, 5, 0, 0, 0, 0, 0, 0, 0, 0, 0, 0, 0, 0, 0, 0, 0, 0,
     0, 0, 0, 0, 255, 150, 0, 0, 0, 0, 0, 0, 0, 0, 0, 0, 0, 0, 0, 0, 0, 0, 0, 0, 0,
     0, 0, 0, 0, 0, 0, 0, 0, 0, 0, 0, 50]"
  by (simp add: ex8_seg_def numeral_eq_Suc)

lemma ex8_masked: "masked_seg ex8_seg = [5, 255, 150, 50]"
  by (simp add: masked_seg_def ex8_seg_list)

lemma ex8_rows:
  "rows_with_label ex8_vol ex8_seg 150 = [replicate 50 32] \<and>
   rows_with_label ex8_vol ex8_seg 50 = [replicate 50 63] \<and>
   rows_with_label ex8_vol ex8_seg 255 = [replicate 50 31] \<and>
   rows_with_label ex8_vol ex8_seg 5 = [replicate 50 10]"
  unfolding rows_with_label_def ex8_vol_def ex8_seg_list by (simp add: upt_rec)

text \<open>
  C8: for a 4 x 4 x 4 x 50 volume whose segmentation has exactly one voxel for
  each of the labels 150, 50, 255 and 5 and the label 0 everywhere else, wherever
  the four voxels lie, the voxel-time matrix has exactly 4 rows, the labels read
  along the permutation are 150, 50, 255, 5, and the reordered matrix has the row
  of label 150, then that of label 50, then that of label 255, then that of
  label 5.
\<close>

theorem synthetic_one_voxel_per_band:
  assumes "argsort_ok argsort"
    and "ntsteps func_data = 50" and "length (voxels func_data) = 4 * 4 * 4"
    and "mset segmentation = mset ([150, 50, 255, 5] @ replicate 60 0)"
  shows "masked_data func_data segmentation =
           Inr \<lparr>ncols = 50, mrows = mask_select (voxels func_data) segmentation\<rparr> \<and>
         length (mask_select (voxels func_data) segmentation) = 4 \<and>
         map (\<lambda>i. masked_seg segmentation ! i) (carpet_order argsort segmentation)
           = [150, 50, 255, 5] \<and>
         take_rows \<lparr>ncols = 50, mrows = mask_select (voxels func_data) segmentation\<rparr>
           (carpet_order argsort segmentation) =
           Inr \<lparr>ncols = 50,
                mrows = rows_with_label func_data segmentation 150 @
                        rows_with_label func_data segmentation 50 @
                        rows_with_label func_data segmentation 255 @
                        rows_with_label func_data segmentation 5\<rparr> \<and>
         length (rows_with_label func_data segmentation 150) = 1 \<and>
         length (rows_with_label func_data segmentation 50) = 1 \<and>
         length (rows_with_label func_data segmentation 255) = 1 \<and>
         length (rows_with_label func_data segmentation 5) = 1"
proof -
  have "size (mset segmentation) = 64" by (simp add: assms(4))
  then have len: "length segmentation = length (voxels func_data)"
    by (simp add: assms(3))
  have "mset (masked_seg segmentation) = filter_mset (\<lambda>l. 0 < l) (mset segmentation)"
    by (simp add: masked_seg_def)
  then have ms: "mset (masked_seg segmentation) = {#150, 50, 255, 5#}"
    by (simp add: assms(4))
  then have "size (mset (masked_seg segmentation)) = 4" by simp
  then have four: "length (mask_select (voxels func_data) segmentation) = 4"
    by (simp add: mask_select_length [OF len])
  have all: "list_all (\<lambda>i. i < length (mask_select (voxels func_data) segmentation))
               (carpet_order argsort segmentation)"
    using four ms [THEN arg_cong, of size]
    by (simp add: list_all_iff carpet_order_set [OF assms(1)])
  have rows: "map (\<lambda>i. mask_select (voxels func_data) segmentation ! i)
                (carpet_order argsort segmentation) =
              rows_with_label func_data segmentation 150 @
              rows_with_label func_data segmentation 50 @
              rows_with_label func_data segmentation 255 @
              rows_with_label func_data segmentation 5"
    by (rule one_per_band_rows [OF assms(1) len [symmetric] ms])
  have one: "length (filter (\<lambda>p. snd p = l) (zip (voxels func_data) segmentation)) = 1"
    if "l \<in> {150, 50, 255, 5}" for l
  proof -
    have "length (filter (\<lambda>p. snd p = l) (zip (voxels func_data) segmentation))
          = length (map snd (filter ((\<lambda>x. x = l) \<circ> snd) (zip (voxels func_data) segmentation)))"
      by (simp add: comp_def)
    also have "\<dots> = length (filter (\<lambda>x. x = l) (map snd (zip (voxels func_data) segmentation)))"
      by (simp only: filter_map)
    also have "\<dots> = length (filter (\<lambda>x. x = l) segmentation)"
      using len by simp
    also have "\<dots> = size (filter_mset (\<lambda>x. x = l) (mset segmentation))"
      by (simp only: mset_filter [symmetric] size_mset)
    also have "\<dots> = 1" using that by (auto simp: assms(4))
    finally show ?thesis by simp
  qed
  have taken: "take_rows \<lparr>ncols = 50, mrows = mask_select (voxels func_data) segmentation\<rparr>
           (carpet_order argsort segmentation) =
           Inr \<lparr>ncols = 50,
                mrows = map (\<lambda>i. mask_select (voxels func_data) segmentation ! i)
                          (carpet_order argsort segmentation)\<rparr>"
    using all by (simp add: take_rows_def)
  have data: "masked_data func_data segmentation =
           Inr \<lparr>ncols = 50, mrows = mask_select (voxels func_data) segmentation\<rparr>"
    using masked_data_ok [OF len] assms(2) by simp
  show ?thesis
    using one by (simp add: data four one_per_band_order [OF assms(1) ms] taken rows
        rows_with_label_def)
qed

theorem synthetic_one_voxel_per_band_witness:
  "argsort_ok stable_argsort \<and> ntsteps ex8_vol = 50 \<and> length (voxels ex8_vol) = 4 * 4 * 4 \<and>
   mset ex8_seg = mset ([150, 50, 255, 5] @ replicate 60 0) \<and>
   masked_seg ex8_seg = [5, 255, 150, 50] \<and>
   carpet_order stable_argsort ex8_seg = [2, 3, 1, 0] \<and>
   map (\<lambda>i. masked_seg ex8_seg ! i) (carpet_order stable_argsort ex8_seg) = [150, 50, 255, 5] \<and>
   take_rows \<lparr>ncols = 50, mrows = mask_select (voxels ex8_vol) ex8_seg\<rparr>
     (carpet_order stable_argsort ex8_seg) =
     Inr \<lparr>ncols = 50,
          mrows = [replicate 50 32, replicate 50 63, replicate 50 31, replicate 50 10]\<rparr>"
proof -
  have n: "ntsteps ex8_vol = 50" by (simp add: ex8_vol_def)
  have l: "length (voxels ex8_vol) = 4 * 4 * 4" by (simp add: ex8_vol_def)
  note t = synthetic_one_voxel_per_band [OF stable_argsort_ok n l ex8_mset]
  have s: "newsegm (masked_seg ex8_seg) = [3, 2, 0, 1]"
    by (simp add: ex8_masked newsegm_def seg_labels_def unique_def cort_gm_def deep_gm_def
        cerebellum_def wm_csf_def)
  have o: "carpet_order stable_argsort ex8_seg = [2, 3, 1, 0]"
    by (simp add: carpet_order_def s stable_argsort_def upt_rec)
  show ?thesis
    using t stable_argsort_ok n l ex8_mset ex8_masked o
    by (simp only: ex8_rows append_Cons append_Nil simp_thms)
qed

section \<open>The cutoff list of a confound descriptor\<close>

text \<open>
  C9 fails on the code: \<open>confoundplot\<close> inserts the mean at the front of the
  \<open>cutoff\<close> list it was given, which is the list of the caller's descriptor.
  With a confound \<open>[1, 2, 3]\<close> whose descriptor has the cutoff list \<open>[1/2]\<close>, a
  first call of \<open>plot\<close> leaves \<open>[2, 1/2]\<close> in the descriptor and draws two lines;
  a second call with the same object leaves \<open>[2, 2, 1/2]\<close> and draws three.
\<close>

theorem confound_cutoff_mutated:
  "(case plot id_clean stable_argsort ((\<lambda>r. [])(0 := [1 / 2]))
           \<lparr>self_func_data = \<lparr>ntsteps = 3, voxels = [[1, 2, 3], [4, 5, 6]]\<rparr>,
            self_seg_data = [150, 0], self_stat_map = False, self_map_range = None,
            self_tr = Some 2,
            self_confounds =
              [([1, 2, 3], \<lparr>kw_normalize = False, kw_cutoff = Some 0, kw_ylims = None\<rparr>)]\<rparr> of
      Inl e \<Rightarrow> Inl e
    | Inr (h1, axs1, carpet1) \<Rightarrow>
        map_sum id (\<lambda>(h2, axs2, carpet2). (h1 0, map ax_lines axs1, h2 0, map ax_lines axs2))
          (plot id_clean stable_argsort h1
             \<lparr>self_func_data = \<lparr>ntsteps = 3, voxels = [[1, 2, 3], [4, 5, 6]]\<rparr>,
              self_seg_data = [150, 0], self_stat_map = False, self_map_range = None,
              self_tr = Some 2,
              self_confounds =
                [([1, 2, 3], \<lparr>kw_normalize = False, kw_cutoff = Some 0, kw_ylims = None\<rparr>)]\<rparr>))
   = Inr ([2, 1 / 2], [[2, 1 / 2]], [2, 2, 1 / 2], [[2, 2, 1 / 2]])"
proof -
  let ?fd = "\<lparr>ntsteps = 3, voxels = [[1, 2, 3], [4, 5, 6]]\<rparr>"
  let ?kw = "\<lparr>kw_normalize = False, kw_cutoff = Some 0, kw_ylims = None\<rparr>"
  have l: "length [150, 0 :: int] = length (voxels ?fd)" by simp
  have n: "0 < ntsteps ?fd" by simp
  obtain carpet where c:
    "fmricarpetplot id_clean stable_argsort ?fd [150, 0] False None (Some 2) = Inr carpet"
    using fmricarpetplot_raw [OF stable_argsort_ok id_clean_ok l n, of None "Some 2"]
    by (simp add: Let_def)
  have m: "mean [1, 2, 3] = 2" by (simp add: mean_def)
  have p: "confoundplot h [1, 2, 3] (Some 2) ?kw =
           Inr (h(0 := 2 # h 0), \<lparr>ax_ylim = (95 / 100, 33 / 10), ax_lines = 2 # h 0\<rparr>)" for h
    by (simp add: confoundplot_def m Let_def)
  show ?thesis
    by (simp add: plot_def p c)
qed

end
